theory Spec2Isabelle
  imports Main "HOL-Library.Char_ord" "HOL-Library.List_Lexorder" "HOL-Library.Multiset"
begin

section \<open>The ECMAScript Date built-in, as far as calendar.tsx calls it\<close>

text \<open>
  calendar.tsx computes with JavaScript \<^verbatim>\<open>Date\<close> objects. A Date holds a time value:
  NaN (an "Invalid Date") or an integral number of milliseconds since 1970-01-01T00:00Z
  of magnitude at most 8.64e15. The definitions below are the abstract operations of
  ECMA-262 (section "Date Objects") under their own names, on integers.

  Numeric arguments are integers (the source passes results of \<^verbatim>\<open>getFullYear\<close>,
  \<^verbatim>\<open>getMonth\<close> and loop counters).
\<close>

datatype jsdate = Invalid | Time int

datatype jserror = RangeError | TypeError

definition msPerDay :: int where
  "msPerDay = 86400000"

definition Day :: "int \<Rightarrow> int" where
  "Day t = t div msPerDay"

definition TimeWithinDay :: "int \<Rightarrow> int" where
  "TimeWithinDay t = t mod msPerDay"

definition DaysInYear :: "int \<Rightarrow> int" where
  "DaysInYear y =
     (if y mod 4 \<noteq> 0 then 365
      else if y mod 100 \<noteq> 0 then 366
      else if y mod 400 \<noteq> 0 then 365
      else 366)"

definition DayFromYear :: "int \<Rightarrow> int" where
  "DayFromYear y =
     365 * (y - 1970) + (y - 1969) div 4 - (y - 1901) div 100 + (y - 1601) div 400"

lemma div_step:
  fixes a k :: int
  assumes k: "0 < k"
  shows "(a + 1) div k = a div k + (if (a + 1) mod k = 0 then 1 else 0)"
proof -
  define q where "q = a div k"
  define r where "r = a mod k"
  have a: "a = k * q + r" and r0: "0 \<le> r" and rk: "r < k"
    using k by (simp_all add: q_def r_def)
  show ?thesis
  proof (cases "r + 1 < k")
    case True
    have e: "a + 1 = k * q + (r + 1)" using a by simp
    have "(a + 1) div k = q"
      by (rule int_div_pos_eq [OF e]) (use r0 True in simp_all)
    moreover have "(a + 1) mod k = r + 1"
      by (rule int_mod_pos_eq [OF e]) (use r0 True in simp_all)
    ultimately show ?thesis using r0 by (simp add: q_def)
  next
    case False
    then have rk1: "r + 1 = k" using rk by simp
    have e: "a + 1 = k * (q + 1) + 0" using a rk1 by (simp add: algebra_simps)
    have "(a + 1) div k = q + 1"
      by (rule int_div_pos_eq [OF e]) (use k in simp_all)
    moreover have "(a + 1) mod k = 0"
      by (rule int_mod_pos_eq [OF e]) (use k in simp_all)
    ultimately show ?thesis by (simp add: q_def)
  qed
qed

lemma mod_shift4: "((y::int) - 1968) mod 4 = 0 \<longleftrightarrow> y mod 4 = 0"
proof -
  have "y - 1968 = y + 4 * (- 492)" by simp
  then show ?thesis by (simp only: mod_mult_self2)
qed

lemma mod_shift100: "((y::int) - 1900) mod 100 = 0 \<longleftrightarrow> y mod 100 = 0"
proof -
  have "y - 1900 = y + 100 * (- 19)" by simp
  then show ?thesis by (simp only: mod_mult_self2)
qed

lemma mod_shift400: "((y::int) - 1600) mod 400 = 0 \<longleftrightarrow> y mod 400 = 0"
proof -
  have "y - 1600 = y + 400 * (- 4)" by simp
  then show ?thesis by (simp only: mod_mult_self2)
qed

lemma mod400_100: "(y::int) mod 400 = 0 \<Longrightarrow> y mod 100 = 0"
proof -
  assume "y mod 400 = 0"
  then have "400 dvd y" by (simp add: mod_eq_0_iff_dvd)
  moreover have "(100::int) dvd 400" by simp
  ultimately have "100 dvd y" by (rule dvd_trans [rotated])
  then show ?thesis by (simp add: mod_eq_0_iff_dvd)
qed

lemma mod100_4: "(y::int) mod 100 = 0 \<Longrightarrow> y mod 4 = 0"
proof -
  assume "y mod 100 = 0"
  then have "100 dvd y" by (simp add: mod_eq_0_iff_dvd)
  moreover have "(4::int) dvd 100" by simp
  ultimately have "4 dvd y" by (rule dvd_trans [rotated])
  then show ?thesis by (simp add: mod_eq_0_iff_dvd)
qed

lemma DayFromYear_Suc: "DayFromYear (y + 1) = DayFromYear y + DaysInYear y"
proof -
  have a: "(y + 1 - 1969) div 4 = (y - 1969) div 4 + (if y mod 4 = 0 then 1 else 0)"
    using div_step [of 4 "y - 1969"] mod_shift4 [of y] by (simp add: algebra_simps)
  have b: "(y + 1 - 1901) div 100 = (y - 1901) div 100 + (if y mod 100 = 0 then 1 else 0)"
    using div_step [of 100 "y - 1901"] mod_shift100 [of y] by (simp add: algebra_simps)
  have c: "(y + 1 - 1601) div 400 = (y - 1601) div 400 + (if y mod 400 = 0 then 1 else 0)"
    using div_step [of 400 "y - 1601"] mod_shift400 [of y] by (simp add: algebra_simps)
  show ?thesis
    unfolding DayFromYear_def DaysInYear_def a b c
    using mod400_100 [of y] mod100_4 [of y] by auto
qed

lemma DaysInYear_bounds: "365 \<le> DaysInYear y \<and> DaysInYear y \<le> 366"
  by (simp add: DaysInYear_def)

text \<open>
  \<^verbatim>\<open>YearFromTime(t)\<close> is "the largest integer y such that TimeFromYear(y) \<le> t". It is
  computed by walking up from a year that is certainly not after the day: \<open>yearSearch\<close>.
\<close>

function yearSearch :: "int \<Rightarrow> int \<Rightarrow> int" where
  "yearSearch d y = (if DayFromYear (y + 1) \<le> d then yearSearch d (y + 1) else y)"
  by pat_completeness auto
termination
proof (relation "measure (\<lambda>(d, y). nat (d + 1 - DayFromYear (y + 1)))")
  show "wf (measure (\<lambda>(d, y). nat (d + 1 - DayFromYear (y + 1))))"
    by simp
next
  fix d y :: int
  assume le: "DayFromYear (y + 1) \<le> d"
  have "DayFromYear (y + 1 + 1) = DayFromYear (y + 1) + DaysInYear (y + 1)"
    by (rule DayFromYear_Suc)
  moreover have "365 \<le> DaysInYear (y + 1)"
    using DaysInYear_bounds by blast
  ultimately show "((d, y + 1), (d, y)) \<in> measure (\<lambda>(d, y). nat (d + 1 - DayFromYear (y + 1)))"
    using le by simp
qed

declare yearSearch.simps [simp del]

definition yearStart :: "int \<Rightarrow> int" where
  "yearStart d = 1970 + (if 0 \<le> d then d div 366 else d div 365)"

definition YearFromTime :: "int \<Rightarrow> int" where
  "YearFromTime t = yearSearch (Day t) (yearStart (Day t))"

definition InLeapYear :: "int \<Rightarrow> int" where
  "InLeapYear t = (if DaysInYear (YearFromTime t) = 366 then 1 else 0)"

definition DayWithinYear :: "int \<Rightarrow> int" where
  "DayWithinYear t = Day t - DayFromYear (YearFromTime t)"

definition MonthFromTime :: "int \<Rightarrow> int" where
  "MonthFromTime t =
     (let d = DayWithinYear t; l = InLeapYear t in
      if d < 31 then 0
      else if d < 59 + l then 1
      else if d < 90 + l then 2
      else if d < 120 + l then 3
      else if d < 151 + l then 4
      else if d < 181 + l then 5
      else if d < 212 + l then 6
      else if d < 243 + l then 7
      else if d < 273 + l then 8
      else if d < 304 + l then 9
      else if d < 334 + l then 10
      else 11)"

definition DateFromTime :: "int \<Rightarrow> int" where
  "DateFromTime t =
     (let d = DayWithinYear t; l = InLeapYear t; m = MonthFromTime t in
      if m = 0 then d + 1
      else if m = 1 then d - 30
      else if m = 2 then d - 58 - l
      else if m = 3 then d - 89 - l
      else if m = 4 then d - 119 - l
      else if m = 5 then d - 150 - l
      else if m = 6 then d - 180 - l
      else if m = 7 then d - 211 - l
      else if m = 8 then d - 242 - l
      else if m = 9 then d - 272 - l
      else if m = 10 then d - 303 - l
      else d - 333 - l)"

definition WeekDay :: "int \<Rightarrow> int" where
  "WeekDay t = (Day t + 4) mod 7"

definition HourFromTime :: "int \<Rightarrow> int" where
  "HourFromTime t = (t div 3600000) mod 24"

definition MinFromTime :: "int \<Rightarrow> int" where
  "MinFromTime t = (t div 60000) mod 60"

definition SecFromTime :: "int \<Rightarrow> int" where
  "SecFromTime t = (t div 1000) mod 60"

definition msFromTime :: "int \<Rightarrow> int" where
  "msFromTime t = t mod 1000"

text \<open>
  The host's time zone is what ECMA-262 calls \<^verbatim>\<open>LocalTZA(t, isUTC)\<close>, an offset in
  milliseconds that depends on the instant: \<open>offsetAt z t\<close> for a UTC time value \<open>t\<close>
  (\<^verbatim>\<open>isUTC\<close> true), \<open>offsetOfLocal z t\<close> for a local time value (\<^verbatim>\<open>isUTC\<close> false; a
  local time that a clock change skips or repeats is read with the offset before the
  change). The zone is passed to every operation that reads or writes local time.
  \<open>fixedZone c\<close> is a host without clock changes.
\<close>

record zone =
  offsetAt :: "int \<Rightarrow> int"
  offsetOfLocal :: "int \<Rightarrow> int"

definition fixedZone :: "int \<Rightarrow> zone" where
  "fixedZone c = \<lparr>offsetAt = (\<lambda>t. c), offsetOfLocal = (\<lambda>t. c)\<rparr>"

definition LocalTime :: "zone \<Rightarrow> int \<Rightarrow> int" where
  "LocalTime z t = t + offsetAt z t"

definition UTC :: "zone \<Rightarrow> int \<Rightarrow> int" where
  "UTC z t = t - offsetOfLocal z t"

definition MakeTime :: "int \<Rightarrow> int \<Rightarrow> int \<Rightarrow> int \<Rightarrow> int" where
  "MakeTime h m s milli = h * 3600000 + m * 60000 + s * 1000 + milli"

text \<open>
  \<^verbatim>\<open>MakeDay(year, month, date)\<close>: with \<open>ym = year + floor(month / 12)\<close> and
  \<open>mn = month modulo 12\<close>, the day number of the first of month \<open>mn\<close> of year \<open>ym\<close>
  (\<open>monthStart\<close> days after the start of the year), plus \<open>date - 1\<close>.
\<close>

definition monthStart :: "int \<Rightarrow> int \<Rightarrow> int" where
  "monthStart ym mn =
     (let l = (if DaysInYear ym = 366 then 1 else 0) in
      if mn = 0 then 0
      else if mn = 1 then 31
      else if mn = 2 then 59 + l
      else if mn = 3 then 90 + l
      else if mn = 4 then 120 + l
      else if mn = 5 then 151 + l
      else if mn = 6 then 181 + l
      else if mn = 7 then 212 + l
      else if mn = 8 then 243 + l
      else if mn = 9 then 273 + l
      else if mn = 10 then 304 + l
      else 334 + l)"

definition MakeDay :: "int \<Rightarrow> int \<Rightarrow> int \<Rightarrow> int" where
  "MakeDay year month date =
     (let ym = year + month div 12; mn = month mod 12 in
      DayFromYear ym + monthStart ym mn + date - 1)"

definition MakeDate :: "int \<Rightarrow> int \<Rightarrow> int" where
  "MakeDate day time = day * msPerDay + time"

definition TimeClip :: "int \<Rightarrow> jsdate" where
  "TimeClip t = (if \<bar>t\<bar> > 8640000000000000 then Invalid else Time t)"

definition MakeFullYear :: "int \<Rightarrow> int" where
  "MakeFullYear y = (if 0 \<le> y \<and> y \<le> 99 then 1900 + y else y)"

subsection \<open>The Date object: constructors, getters, \<^verbatim>\<open>setDate\<close>, \<^verbatim>\<open>toISOString\<close>\<close>

text \<open>
  \<^verbatim>\<open>new Date(year, month, date)\<close>: local midnight of the given day. Years 0 to 99 mean
  1900 to 1999 (MakeFullYear), and a time value out of range gives an Invalid Date.
\<close>

definition newDate :: "zone \<Rightarrow> int \<Rightarrow> int \<Rightarrow> int \<Rightarrow> jsdate" where
  "newDate z year month date =
     TimeClip (UTC z (MakeDate (MakeDay (MakeFullYear year) month date) (MakeTime 0 0 0 0)))"

text \<open>\<^verbatim>\<open>new Date(d)\<close> for a Date \<open>d\<close>: a copy holding the same time value.\<close>

definition copyDate :: "jsdate \<Rightarrow> jsdate" where
  "copyDate d = (case d of Invalid \<Rightarrow> Invalid | Time t \<Rightarrow> TimeClip t)"

text \<open>
  \<^verbatim>\<open>new Date(s)\<close> for a string \<open>s\<close>: \<^verbatim>\<open>Date.parse\<close>, then TimeClip. ECMA-262 fixes the
  result of \<^verbatim>\<open>Date.parse\<close> only for its own date-time format and leaves every other
  string to the engine, so the parser is a parameter: \<open>parse s = None\<close> means NaN.
\<close>

definition parseDate :: "(string \<Rightarrow> int option) \<Rightarrow> string \<Rightarrow> jsdate" where
  "parseDate parse s = (case parse s of None \<Rightarrow> Invalid | Some t \<Rightarrow> TimeClip t)"

text \<open>The getters read local time; on an Invalid Date they return NaN, here \<open>None\<close>.\<close>

definition getFullYear :: "zone \<Rightarrow> jsdate \<Rightarrow> int option" where
  "getFullYear z d = (case d of Invalid \<Rightarrow> None | Time t \<Rightarrow> Some (YearFromTime (LocalTime z t)))"

definition getMonth :: "zone \<Rightarrow> jsdate \<Rightarrow> int option" where
  "getMonth z d = (case d of Invalid \<Rightarrow> None | Time t \<Rightarrow> Some (MonthFromTime (LocalTime z t)))"

definition getDate :: "zone \<Rightarrow> jsdate \<Rightarrow> int option" where
  "getDate z d = (case d of Invalid \<Rightarrow> None | Time t \<Rightarrow> Some (DateFromTime (LocalTime z t)))"

definition getDay :: "zone \<Rightarrow> jsdate \<Rightarrow> int option" where
  "getDay z d = (case d of Invalid \<Rightarrow> None | Time t \<Rightarrow> Some (WeekDay (LocalTime z t)))"

text \<open>
  \<^verbatim>\<open>d.setDate(dt)\<close>: the day of the month of \<open>d\<close>'s local time is replaced, the time of
  day kept. An Invalid Date stays invalid, and so does any date set to NaN.
\<close>

definition setDate :: "zone \<Rightarrow> jsdate \<Rightarrow> int option \<Rightarrow> jsdate" where
  "setDate z d dt =
     (case d of
        Invalid \<Rightarrow> Invalid
      | Time u \<Rightarrow>
          (case dt of
             None \<Rightarrow> Invalid
           | Some n \<Rightarrow>
               (let t = LocalTime z u;
                    newDate = MakeDate (MakeDay (YearFromTime t) (MonthFromTime t) n) (TimeWithinDay t)
                in TimeClip (UTC z newDate))))"

text \<open>Decimal digits, padded on the left with zeros to a fixed width.\<close>

definition digit :: "int \<Rightarrow> char" where
  "digit d = ''0123456789'' ! nat d"

fun pad :: "nat \<Rightarrow> int \<Rightarrow> string" where
  "pad 0 k = []"
| "pad (Suc n) k = pad n (k div 10) @ [digit (k mod 10)]"

text \<open>
  \<^verbatim>\<open>toISOString\<close> throws a RangeError on an Invalid Date. Otherwise it prints UTC time as
  \<^verbatim>\<open>YYYY-MM-DDTHH:mm:ss.sssZ\<close>, the year with four digits from 0 to 9999 and with a sign and
  six digits outside.
\<close>

definition yearString :: "int \<Rightarrow> string" where
  "yearString y =
     (if 0 \<le> y \<and> y \<le> 9999 then pad 4 y
      else (if y < 0 then ''-'' else ''+'') @ pad 6 \<bar>y\<bar>)"

definition toISOString :: "jsdate \<Rightarrow> jserror + string" where
  "toISOString d =
     (case d of
        Invalid \<Rightarrow> Inl RangeError
      | Time t \<Rightarrow>
          Inr (yearString (YearFromTime t) @ ''-'' @ pad 2 (MonthFromTime t + 1) @ ''-''
               @ pad 2 (DateFromTime t) @ ''T'' @ pad 2 (HourFromTime t) @ '':''
               @ pad 2 (MinFromTime t) @ '':'' @ pad 2 (SecFromTime t) @ ''.''
               @ pad 3 (msFromTime t) @ ''Z''))"

section \<open>calendar.tsx: helpers\<close>

text \<open>
  \<^verbatim>\<open>toDateKey(date) = date.toISOString().split('T')[0]\<close>: the text before the first
  \<^verbatim>\<open>T\<close>.
\<close>

definition toDateKey :: "jsdate \<Rightarrow> jserror + string" where
  "toDateKey date =
     (case toISOString date of
        Inl e \<Rightarrow> Inl e
      | Inr s \<Rightarrow> Inr (takeWhile (\<lambda>c. c \<noteq> CHR ''T'') s))"

text \<open>\<^verbatim>\<open>isSameDay(a, b)\<close>: "Returns true if two dates are the same calendar day".\<close>

definition isSameDay :: "jsdate \<Rightarrow> jsdate \<Rightarrow> jserror + bool" where
  "isSameDay a b =
     (case toDateKey a of
        Inl e \<Rightarrow> Inl e
      | Inr ka \<Rightarrow> (case toDateKey b of Inl e \<Rightarrow> Inl e | Inr kb \<Rightarrow> Inr (ka = kb)))"

section \<open>Facts about the Date operations\<close>

lemma DayFromYear_1970: "DayFromYear 1970 = 0"
  by (simp add: DayFromYear_def)

lemma DayFromYear_mono_aux: "0 \<le> k \<Longrightarrow> DayFromYear y + 365 * k \<le> DayFromYear (y + k)"
proof (induction k rule: int_ge_induct)
  case base
  show ?case by simp
next
  case (step i)
  have "DayFromYear (y + (i + 1)) = DayFromYear (y + i) + DaysInYear (y + i)"
    using DayFromYear_Suc [of "y + i"] by (simp add: add.assoc)
  then show ?case using step DaysInYear_bounds [of "y + i"] by simp
qed

lemma DayFromYear_upper_aux: "0 \<le> k \<Longrightarrow> DayFromYear (y + k) \<le> DayFromYear y + 366 * k"
proof (induction k rule: int_ge_induct)
  case base
  show ?case by simp
next
  case (step i)
  have "DayFromYear (y + (i + 1)) = DayFromYear (y + i) + DaysInYear (y + i)"
    using DayFromYear_Suc [of "y + i"] by (simp add: add.assoc)
  then show ?case using step DaysInYear_bounds [of "y + i"] by simp
qed

lemma DayFromYear_less: "y < y' \<Longrightarrow> DayFromYear (y + 1) \<le> DayFromYear y'"
  using DayFromYear_mono_aux [of "y' - (y + 1)" "y + 1"] by simp

lemma DayFromYear_mono: "y \<le> y' \<Longrightarrow> DayFromYear y \<le> DayFromYear y'"
  using DayFromYear_mono_aux [of "y' - y" y] by simp

lemma year_unique:
  assumes "DayFromYear y \<le> d" "d < DayFromYear (y + 1)"
    and "DayFromYear y' \<le> d" "d < DayFromYear (y' + 1)"
  shows "y = y'"
proof (rule ccontr)
  assume "y \<noteq> y'"
  then consider "y < y'" | "y' < y" by linarith
  then show False
  proof cases
    case 1
    from DayFromYear_less [OF 1] assms show False by simp
  next
    case 2
    from DayFromYear_less [OF 2] assms show False by simp
  qed
qed

lemma yearSearch_spec:
  "DayFromYear y \<le> d \<Longrightarrow>
   DayFromYear (yearSearch d y) \<le> d \<and> d < DayFromYear (yearSearch d y + 1)"
proof (induction d y rule: yearSearch.induct)
  case (1 d y)
  show ?case
  proof (cases "DayFromYear (y + 1) \<le> d")
    case True
    with "1.IH" show ?thesis by (simp add: yearSearch.simps [of d y])
  next
    case False
    with "1.prems" show ?thesis by (simp add: yearSearch.simps [of d y])
  qed
qed

lemma yearStart_le: "DayFromYear (yearStart d) \<le> d"
proof (cases "0 \<le> d")
  case True
  have "DayFromYear (1970 + d div 366) \<le> DayFromYear 1970 + 366 * (d div 366)"
    using True by (intro DayFromYear_upper_aux) simp
  also have "\<dots> \<le> d" by (simp add: DayFromYear_1970)
  finally show ?thesis using True by (simp add: yearStart_def)
next
  case False
  then have neg: "d div 365 \<le> 0" by simp
  have "DayFromYear (1970 + d div 365) + 365 * (- (d div 365)) \<le> DayFromYear (1970 + d div 365 + (- (d div 365)))"
    using neg by (intro DayFromYear_mono_aux) simp
  then have "DayFromYear (1970 + d div 365) \<le> 365 * (d div 365)"
    by (simp add: DayFromYear_1970)
  also have "\<dots> \<le> d" by simp
  finally show ?thesis using False by (simp add: yearStart_def)
qed

lemma YearFromTime_spec:
  "DayFromYear (YearFromTime t) \<le> Day t \<and> Day t < DayFromYear (YearFromTime t + 1)"
  unfolding YearFromTime_def by (rule yearSearch_spec) (rule yearStart_le)

lemma YearFromTime_eqI:
  "DayFromYear y \<le> Day t \<Longrightarrow> Day t < DayFromYear (y + 1) \<Longrightarrow> YearFromTime t = y"
  using YearFromTime_spec [of t] year_unique by blast

lemma DayWithinYear_range:
  "0 \<le> DayWithinYear t \<and> DayWithinYear t < DaysInYear (YearFromTime t)"
  using YearFromTime_spec [of t] DayFromYear_Suc [of "YearFromTime t"]
  by (simp add: DayWithinYear_def)

lemma MonthFromTime_range: "0 \<le> MonthFromTime t \<and> MonthFromTime t \<le> 11"
  by (simp add: MonthFromTime_def Let_def)

lemma month_date_DayWithinYear:
  "monthStart (YearFromTime t) (MonthFromTime t) + DateFromTime t - 1 = DayWithinYear t"
  by (simp add: monthStart_def MonthFromTime_def DateFromTime_def InLeapYear_def Let_def)

lemma MakeDay_of_time:
  "MakeDay (YearFromTime t) (MonthFromTime t) (DateFromTime t) = Day t"
proof -
  have m: "MonthFromTime t div 12 = 0" "MonthFromTime t mod 12 = MonthFromTime t"
    using MonthFromTime_range [of t] by simp_all
  show ?thesis
    using month_date_DayWithinYear [of t]
    by (simp add: MakeDay_def m DayWithinYear_def Let_def)
qed

lemma MakeDay_shift: "MakeDay y m (d + k) = MakeDay y m d + k"
  by (simp add: MakeDay_def Let_def)

lemma setDate_previous:
  "setDate z (Time u) (Some (DateFromTime (LocalTime z u) - 1))
     = TimeClip (UTC z (LocalTime z u - msPerDay))"
proof -
  define t where "t = LocalTime z u"
  have "MakeDay (YearFromTime t) (MonthFromTime t) (DateFromTime t - 1) = Day t - 1"
    using MakeDay_shift [of "YearFromTime t" "MonthFromTime t" "DateFromTime t" "- 1"]
    by (simp add: MakeDay_of_time)
  moreover have "MakeDate (Day t - 1) (TimeWithinDay t) = t - msPerDay"
  proof -
    have "Day t * msPerDay + TimeWithinDay t = t"
      by (simp add: Day_def TimeWithinDay_def)
    then show ?thesis
      by (simp add: MakeDate_def left_diff_distrib)
  qed
  ultimately have "MakeDate (MakeDay (YearFromTime t) (MonthFromTime t) (DateFromTime t - 1))
               (TimeWithinDay t) = t - msPerDay"
    by simp
  then show ?thesis
    by (simp add: setDate_def Let_def t_def [symmetric])
qed

lemma LocalTime_fixed [simp]: "LocalTime (fixedZone c) t = t + c"
  by (simp add: LocalTime_def fixedZone_def)

lemma UTC_fixed [simp]: "UTC (fixedZone c) t = t - c"
  by (simp add: UTC_def fixedZone_def)

section \<open>calendar.tsx: the calendar screen's derived data\<close>

text \<open>
  One saved outfit, as the backend delivers it. \<open>date\<close> is a string such as
  \<^verbatim>\<open>"2025-09-13T00:00:00.000Z"\<close>; every use goes through \<^verbatim>\<open>new Date(o.date)\<close>.
  Strings stand for sequences of code units below 256.
\<close>

record OutfitEntry =
  entry_id :: string
  userId :: string
  date :: string
  garmentIds :: "string list"
  previewImage :: string

subsection \<open>\<^verbatim>\<open>getMonthGrid\<close>\<close>

text \<open>
  The two counting loops compare against \<^verbatim>\<open>getDay()\<close> and \<^verbatim>\<open>getDate()\<close>; when these
  are NaN the comparison is false at once and the loop body never runs. \<open>padLoop\<close> is the
  final \<^verbatim>\<open>while (grid.length % 7 !== 0) grid.push(null)\<close>. A cell is \<open>None\<close> for
  \<^verbatim>\<open>null\<close>.
\<close>

function padLoop :: "'a option list \<Rightarrow> 'a option list" where
  "padLoop grid = (if length grid mod 7 \<noteq> 0 then padLoop (grid @ [None]) else grid)"
  by pat_completeness auto
termination
proof (relation "measure (\<lambda>grid. 6 - (length grid + 6) mod 7)")
  show "wf (measure (\<lambda>grid::'a option list. 6 - (length grid + 6) mod 7))"
    by simp
next
  fix grid :: "'a option list"
  assume a: "length grid mod 7 \<noteq> 0"
  define n where "n = length grid"
  have "6 - (Suc n + 6) mod 7 < 6 - (n + 6) mod 7"
    using a unfolding n_def [symmetric] by presburger
  then show "(grid @ [None], grid) \<in> measure (\<lambda>grid. 6 - (length grid + 6) mod 7)"
    by (simp add: n_def)
qed

declare padLoop.simps [simp del]

definition getMonthGrid :: "zone \<Rightarrow> int \<Rightarrow> int \<Rightarrow> jsdate option list" where
  "getMonthGrid z year month =
     (let firstDay = newDate z year month 1;
          lastDay = newDate z year (month + 1) 0;
          leading = (case getDay z firstDay of
                       None \<Rightarrow> []
                     | Some n \<Rightarrow> replicate (nat n) None);
          days = (case getDate z lastDay of
                    None \<Rightarrow> []
                  | Some n \<Rightarrow> map (\<lambda>d. Some (newDate z year month d)) [1..n])
      in padLoop (leading @ days))"

subsection \<open>\<^verbatim>\<open>outfitMap\<close>\<close>

text \<open>
  The lookup table built on every render: \<^verbatim>\<open>outfits.forEach\<close> stores each outfit under
  \<^verbatim>\<open>toDateKey(new Date(o.date))\<close>. An exception thrown by \<^verbatim>\<open>toDateKey\<close> ends the loop.
  Keys are produced by \<^verbatim>\<open>toDateKey\<close> only, so no lookup ever reaches a property
  inherited from \<^verbatim>\<open>Object.prototype\<close>, and the object is a finite map.
\<close>

fun outfitMapLoop ::
  "(string \<Rightarrow> int option) \<Rightarrow> OutfitEntry list \<Rightarrow> (string \<rightharpoonup> OutfitEntry)
     \<Rightarrow> jserror + (string \<rightharpoonup> OutfitEntry)" where
  "outfitMapLoop parse [] om = Inr om"
| "outfitMapLoop parse (x # xs) om =
     (case toDateKey (parseDate parse (date x)) of
        Inl e \<Rightarrow> Inl e
      | Inr key \<Rightarrow> outfitMapLoop parse xs (om(key \<mapsto> x)))"

definition outfitMap ::
  "(string \<Rightarrow> int option) \<Rightarrow> OutfitEntry list \<Rightarrow> jserror + (string \<rightharpoonup> OutfitEntry)" where
  "outfitMap parse outfits = outfitMapLoop parse outfits Map.empty"

subsection \<open>\<^verbatim>\<open>getMostWornThisMonth\<close>\<close>

text \<open>\<^verbatim>\<open>===\<close> on numbers: NaN is equal to nothing, not even to itself.\<close>

definition strictEq :: "int option \<Rightarrow> int option \<Rightarrow> bool" where
  "strictEq a b = (case a of None \<Rightarrow> False | Some x \<Rightarrow> (case b of None \<Rightarrow> False | Some y \<Rightarrow> x = y))"

definition thisMonthOutfits ::
  "zone \<Rightarrow> (string \<Rightarrow> int option) \<Rightarrow> OutfitEntry list \<Rightarrow> jsdate \<Rightarrow> OutfitEntry list" where
  "thisMonthOutfits z parse outfits currentMonth =
     (let year = getFullYear z currentMonth;
          month = getMonth z currentMonth
      in filter (\<lambda>x. let d = parseDate parse (date x)
                     in strictEq (getFullYear z d) year \<and> strictEq (getMonth z d) month)
           outfits)"

text \<open>\<^verbatim>\<open>[...o.garmentIds].sort().join(',')\<close>: the default sort orders strings by code units.\<close>

fun join :: "string \<Rightarrow> string list \<Rightarrow> string" where
  "join sep [] = []"
| "join sep [x] = x"
| "join sep (x # y # ys) = x @ sep @ join sep (y # ys)"

definition signature :: "OutfitEntry \<Rightarrow> string" where
  "signature x = join '','' (sort (garmentIds x))"

text \<open>
  \<^verbatim>\<open>countMap\<close> is a plain object used as a dictionary. Its own properties are kept in
  creation order; a value is \<^verbatim>\<open>{count, outfit}\<close>. Reading \<^verbatim>\<open>countMap[key]\<close> for a key
  that is not an own property looks at \<^verbatim>\<open>Object.prototype\<close>, whose properties
  (ECMA-262, "Properties of the Object Prototype Object") are all truthy: for such a key
  nothing is stored, and \<^verbatim>\<open>count++\<close> lands on the inherited object.
\<close>

record group =
  count_n :: nat
  outfit :: OutfitEntry

definition objectPrototypeKeys :: "string list" where
  "objectPrototypeKeys =
     [''constructor'', ''hasOwnProperty'', ''isPrototypeOf'', ''propertyIsEnumerable'',
      ''toLocaleString'', ''toString'', ''valueOf'', ''__proto__'', ''__defineGetter__'',
      ''__defineSetter__'', ''__lookupGetter__'', ''__lookupSetter__'']"

definition countStep :: "(string \<times> group) list \<Rightarrow> OutfitEntry \<Rightarrow> (string \<times> group) list" where
  "countStep countMap x =
     (let key = signature x in
      case map_of countMap key of
        Some g \<Rightarrow> map (\<lambda>(k, v). if k = key then (k, v\<lparr>count_n := count_n v + 1\<rparr>) else (k, v)) countMap
      | None \<Rightarrow>
          if key \<in> set objectPrototypeKeys then countMap
          else countMap @ [(key, \<lparr>count_n = 1, outfit = x\<rparr>)])"

text \<open>
  \<^verbatim>\<open>Object.values\<close> lists own properties in property order: first the keys that are array
  indices (canonical decimal numerals up to 2^32 - 2), by ascending value, then every other
  key in creation order.
\<close>

definition isDigit :: "char \<Rightarrow> bool" where
  "isDigit c = (CHR ''0'' \<le> c \<and> c \<le> CHR ''9'')"

definition decimalValue :: "string \<Rightarrow> nat" where
  "decimalValue s = foldl (\<lambda>a c. 10 * a + (of_char c - 48)) 0 s"

definition isArrayIndex :: "string \<Rightarrow> bool" where
  "isArrayIndex s =
     (s \<noteq> [] \<and> list_all isDigit s \<and> (s = ''0'' \<or> hd s \<noteq> CHR ''0'')
      \<and> decimalValue s \<le> 4294967294)"

definition Object_values :: "(string \<times> 'v) list \<Rightarrow> 'v list" where
  "Object_values obj =
     map snd (sort_key (\<lambda>(k, v). decimalValue k) (filter (\<lambda>(k, v). isArrayIndex k) obj)
              @ filter (\<lambda>(k, v). \<not> isArrayIndex k) obj)"

text \<open>
  \<^verbatim>\<open>.sort((a, b) => b.count - a.count)[0]\<close>: a stable sort by descending count, then the
  first element, \<^verbatim>\<open>undefined\<close> for an empty array; reading \<^verbatim>\<open>best.outfit\<close> of
  \<^verbatim>\<open>undefined\<close> throws a TypeError.
\<close>

definition best :: "(string \<times> group) list \<Rightarrow> group option" where
  "best countMap =
     (case sort_key (\<lambda>g. - int (count_n g)) (Object_values countMap) of
        [] \<Rightarrow> None
      | g # _ \<Rightarrow> Some g)"

definition getMostWornThisMonth ::
  "zone \<Rightarrow> (string \<Rightarrow> int option) \<Rightarrow> OutfitEntry list \<Rightarrow> jsdate
     \<Rightarrow> jserror + (string \<times> nat) option" where
  "getMostWornThisMonth z parse outfits currentMonth =
     (let thisMonth = thisMonthOutfits z parse outfits currentMonth in
      if length thisMonth = 0 then Inr None
      else
        (let countMap = foldl countStep [] thisMonth in
         case best countMap of
           None \<Rightarrow> Inl TypeError
         | Some g \<Rightarrow> Inr (Some (previewImage (outfit g), count_n g))))"

subsection \<open>\<^verbatim>\<open>getStreak\<close>\<close>

text \<open>
  \<^verbatim>\<open>getStreak\<close> reads the clock (\<^verbatim>\<open>new Date()\<close>, here the argument \<open>now\<close>) and the
  \<^verbatim>\<open>outfitMap\<close> of the current render. \<open>streakLoop\<close> is its \<^verbatim>\<open>while (true)\<close>; an entry of
  \<^verbatim>\<open>outfitMap\<close> is an object, hence truthy. The loop has no bound of its own: a run
  that never ends is the value \<open>None\<close>, a run that ends is \<open>Some\<close> of the count or of the
  exception thrown.
\<close>

partial_function (option) streakLoop ::
  "zone \<Rightarrow> (string \<rightharpoonup> OutfitEntry) \<Rightarrow> jsdate \<Rightarrow> nat \<Rightarrow> (jserror + nat) option" where
  "streakLoop z om checking streak =
     (case toDateKey checking of
        Inl e \<Rightarrow> Some (Inl e)
      | Inr key \<Rightarrow>
          (case om key of
             Some x \<Rightarrow>
               streakLoop z om
                 (setDate z checking (map_option (\<lambda>n. n - 1) (getDate z checking)))
                 (streak + 1)
           | None \<Rightarrow> Some (Inr streak)))"

definition getStreak :: "zone \<Rightarrow> (string \<rightharpoonup> OutfitEntry) \<Rightarrow> int \<Rightarrow> (jserror + nat) option" where
  "getStreak z om now =
     (let today = Time now;
          checking = copyDate today
      in streakLoop z om checking 0)"

section \<open>Example data\<close>

text \<open>
  Concrete hosts, outfits, indexes and a parser, used to run the definitions.
  \<open>newYork2025\<close> has the offsets of America/New_York around its two clock changes of 2025
  (to daylight time on 9 March at 07:00 UTC, back on 2 November at 06:00 UTC). The parser
  knows the ISO strings of the examples, with the time values that \<^verbatim>\<open>Date.parse\<close> must
  give for them (a date without a time is UTC midnight), and answers NaN for anything
  else.
\<close>

definition newYork2025 :: zone where
  "newYork2025 =
     \<lparr>offsetAt = (\<lambda>t. if t < 1741503600000 then - 18000000
                      else if t < 1762063200000 then - 14400000 else - 18000000),
      offsetOfLocal = (\<lambda>t. if t < 1741489200000 then - 18000000
                           else if t < 1762048800000 then - 14400000 else - 18000000)\<rparr>"

definition exampleOutfit :: OutfitEntry where
  "exampleOutfit =
     \<lparr>entry_id = ''o1'', userId = ''u1'', date = ''2025-06-12T00:00:00.000Z'',
      garmentIds = [''a'', ''b''], previewImage = ''p1.png''\<rparr>"

definition juneIndex :: "string \<rightharpoonup> OutfitEntry" where
  "juneIndex = map_of [(''2025-06-10'', exampleOutfit), (''2025-06-11'', exampleOutfit),
                       (''2025-06-12'', exampleOutfit)]"

definition juneIndexGap :: "string \<rightharpoonup> OutfitEntry" where
  "juneIndexGap = map_of [(''2025-06-10'', exampleOutfit), (''2025-06-12'', exampleOutfit)]"

definition novemberIndex :: "string \<rightharpoonup> OutfitEntry" where
  "novemberIndex = map_of [(''2025-11-01'', exampleOutfit), (''2025-11-02'', exampleOutfit),
                           (''2025-11-03'', exampleOutfit)]"

definition novemberIndexGap :: "string \<rightharpoonup> OutfitEntry" where
  "novemberIndexGap = map_of [(''2025-11-01'', exampleOutfit), (''2025-11-03'', exampleOutfit)]"

definition marchIndex :: "string \<rightharpoonup> OutfitEntry" where
  "marchIndex = map_of [(''2025-03-09'', exampleOutfit), (''2025-03-10'', exampleOutfit)]"

definition exampleParse :: "string \<Rightarrow> int option" where
  "exampleParse s =
     (if s = ''2025-03-01'' then Some 1740787200000
      else if s = ''2025-03-05'' then Some 1741132800000
      else if s = ''2025-03-10'' then Some 1741564800000
      else if s = ''2025-06-12T00:00:00.000Z'' then Some 1749686400000
      else if s = ''2025-06-12T18:30:00.000Z'' then Some 1749753000000
      else None)"

definition morningOutfit :: OutfitEntry where
  "morningOutfit =
     \<lparr>entry_id = ''o1'', userId = ''u1'', date = ''2025-06-12T00:00:00.000Z'',
      garmentIds = [''a'', ''b''], previewImage = ''p1.png''\<rparr>"

definition eveningOutfit :: OutfitEntry where
  "eveningOutfit =
     \<lparr>entry_id = ''o2'', userId = ''u1'', date = ''2025-06-12T18:30:00.000Z'',
      garmentIds = [''c''], previewImage = ''p2.png''\<rparr>"

definition brokenOutfit :: OutfitEntry where
  "brokenOutfit =
     \<lparr>entry_id = ''o3'', userId = ''u1'', date = ''not a date'',
      garmentIds = [''a''], previewImage = ''p3.png''\<rparr>"

definition marchOutfit1 :: OutfitEntry where
  "marchOutfit1 =
     \<lparr>entry_id = ''m1'', userId = ''u1'', date = ''2025-03-01'',
      garmentIds = [''a'', ''b''], previewImage = ''m1.png''\<rparr>"

definition marchOutfit2 :: OutfitEntry where
  "marchOutfit2 =
     \<lparr>entry_id = ''m2'', userId = ''u1'', date = ''2025-03-05'',
      garmentIds = [''b'', ''a''], previewImage = ''m2.png''\<rparr>"

definition marchOutfit3 :: OutfitEntry where
  "marchOutfit3 =
     \<lparr>entry_id = ''m3'', userId = ''u1'', date = ''2025-03-10'',
      garmentIds = [''c''], previewImage = ''m3.png''\<rparr>"




section \<open>Facts about the calendar screen\<close>

subsection \<open>The key printed by \<^verbatim>\<open>toDateKey\<close>\<close>

definition validTime :: "int \<Rightarrow> bool" where
  "validTime t = (\<bar>t\<bar> \<le> 8640000000000000)"

definition dateString :: "int \<Rightarrow> string" where
  "dateString t =
     yearString (YearFromTime t) @ ''-'' @ pad 2 (MonthFromTime t + 1) @ ''-''
     @ pad 2 (DateFromTime t)"

lemma length_pad [simp]: "length (pad n k) = n"
  by (induction n arbitrary: k) simp_all

lemma digit_mod_in: "digit (k mod 10) \<in> set ''0123456789''"
proof -
  have "nat (k mod 10) < length ''0123456789''" by simp
  then show ?thesis unfolding digit_def by (rule nth_mem)
qed

lemma digit_mod_no_T: "digit (k mod 10) \<noteq> CHR ''T''"
proof
  assume "digit (k mod 10) = CHR ''T''"
  with digit_mod_in [of k] have "CHR ''T'' \<in> set ''0123456789''" by simp
  then show False by simp
qed

lemma pad_no_T: "CHR ''T'' \<notin> set (pad n k)"
  by (induction n arbitrary: k) (simp_all add: digit_mod_no_T [symmetric])

lemma yearString_no_T: "CHR ''T'' \<notin> set (yearString y)"
  by (simp add: yearString_def pad_no_T)

lemma dateString_no_T: "c \<in> set (dateString t) \<Longrightarrow> c \<noteq> CHR ''T''"
  using yearString_no_T [of "YearFromTime t"] pad_no_T [of 2 "MonthFromTime t + 1"]
    pad_no_T [of 2 "DateFromTime t"]
  unfolding dateString_def by auto

lemma toDateKey_Time: "toDateKey (Time t) = Inr (dateString t)"
proof -
  have "toISOString (Time t) = Inr (dateString t @ CHR ''T'' # pad 2 (HourFromTime t) @ '':''
               @ pad 2 (MinFromTime t) @ '':'' @ pad 2 (SecFromTime t) @ ''.''
               @ pad 3 (msFromTime t) @ ''Z'')"
    by (simp add: toISOString_def dateString_def)
  moreover have "takeWhile (\<lambda>c. c \<noteq> CHR ''T'') (dateString t @ CHR ''T'' # r) = dateString t" for r
    using dateString_no_T [of _ t] by (simp add: takeWhile_append2)
  ultimately show ?thesis by (simp add: toDateKey_def)
qed

lemma toDateKey_Invalid: "toDateKey Invalid = Inl RangeError"
  by (simp add: toDateKey_def toISOString_def)

lemma digit_inj:
  assumes "0 \<le> a" "a < 10" "0 \<le> b" "b < 10" "digit a = digit b"
  shows "a = b"
proof -
  have d: "distinct ''0123456789''" by simp
  have "nat a < length ''0123456789''" "nat b < length ''0123456789''"
    using assms by simp_all
  with d assms(5) have "nat a = nat b"
    unfolding digit_def by (simp only: nth_eq_iff_index_eq)
  with assms show ?thesis by simp
qed

lemma div10_less: "a < 10 * m \<Longrightarrow> a div 10 < (m::int)"
  by linarith

lemma pad_inj:
  "0 \<le> a \<Longrightarrow> a < 10 ^ n \<Longrightarrow> 0 \<le> b \<Longrightarrow> b < 10 ^ n \<Longrightarrow> pad n a = pad n b \<Longrightarrow> a = b"
proof (induction n arbitrary: a b)
  case 0
  then show ?case by simp
next
  case (Suc n)
  from Suc.prems(5) have e: "pad n (a div 10) = pad n (b div 10)"
    and d: "digit (a mod 10) = digit (b mod 10)"
    by simp_all
  have "a < 10 * 10 ^ n" "b < 10 * 10 ^ n"
    using Suc.prems(2,4) by simp_all
  then have lt: "a div 10 < 10 ^ n" "b div 10 < 10 ^ n"
    by (simp_all only: div10_less)
  have ge: "0 \<le> a div 10" "0 \<le> b div 10"
    using Suc.prems(1,3) by simp_all
  have "a div 10 = b div 10"
    by (rule Suc.IH [OF ge(1) lt(1) ge(2) lt(2) e])
  moreover have "a mod 10 = b mod 10"
    by (rule digit_inj [OF _ _ _ _ d]) simp_all
  ultimately have "a div 10 * 10 + a mod 10 = b div 10 * 10 + b mod 10"
    by simp
  then show ?case
    by (simp only: div_mult_mod_eq)
qed

lemma validTime_Day: "validTime t \<Longrightarrow> - 100000000 \<le> Day t \<and> Day t \<le> 100000000"
  unfolding validTime_def Day_def msPerDay_def by linarith

lemma YearFromTime_bounds:
  assumes "validTime t"
  shows "- 271821 \<le> YearFromTime t \<and> YearFromTime t \<le> 275760"
proof -
  note s = YearFromTime_spec [of t]
  note d = validTime_Day [OF assms]
  have hi: "YearFromTime t \<le> 275760"
  proof (rule ccontr)
    assume "\<not> YearFromTime t \<le> 275760"
    then have "DayFromYear 275761 \<le> DayFromYear (YearFromTime t)"
      by (intro DayFromYear_mono) simp
    moreover have "DayFromYear 275761 = 100000110"
      by (simp add: DayFromYear_def)
    ultimately show False using s d by simp
  qed
  have lo: "- 271821 \<le> YearFromTime t"
  proof (rule ccontr)
    assume "\<not> - 271821 \<le> YearFromTime t"
    then have "DayFromYear (YearFromTime t + 1) \<le> DayFromYear (- 271821)"
      by (intro DayFromYear_mono) simp
    moreover have "DayFromYear (- 271821) = - 100000109"
      by (simp add: DayFromYear_def)
    ultimately show False using s d by simp
  qed
  from lo hi show ?thesis by simp
qed

lemma DateFromTime_range: "1 \<le> DateFromTime t \<and> DateFromTime t \<le> 31"
proof -
  define d where "d = DayWithinYear t"
  define n where "n = DaysInYear (YearFromTime t)"
  have r: "0 \<le> d" "d < n"
    using DayWithinYear_range [of t] by (simp_all add: d_def n_def)
  have n: "n = 365 \<or> n = 366"
    by (simp add: n_def DaysInYear_def)
  show ?thesis
    unfolding DateFromTime_def MonthFromTime_def InLeapYear_def Let_def
      d_def [symmetric] n_def [symmetric]
    using r n by (elim disjE) simp_all
qed

lemma yearString_length:
  "length (yearString y) = (if 0 \<le> y \<and> y \<le> 9999 then 4 else 7)"
  by (simp add: yearString_def)

lemma yearString_inj:
  assumes a: "\<bar>a\<bar> < 1000000" and b: "\<bar>b\<bar> < 1000000"
    and e: "yearString a = yearString b"
  shows "a = b"
proof -
  from e have "length (yearString a) = length (yearString b)" by simp
  then have same: "(0 \<le> a \<and> a \<le> 9999) = (0 \<le> b \<and> b \<le> 9999)"
    unfolding yearString_length by (auto split: if_splits)
  show ?thesis
  proof (cases "0 \<le> a \<and> a \<le> 9999")
    case True
    with same e have "pad 4 a = pad 4 b" by (simp add: yearString_def)
    then show ?thesis
      using True same by (intro pad_inj [of a 4 b]) simp_all
  next
    case False
    with same e have s: "(a < 0) = (b < 0)" and p: "pad 6 \<bar>a\<bar> = pad 6 \<bar>b\<bar>"
      by (auto simp add: yearString_def split: if_splits)
    have "\<bar>a\<bar> = \<bar>b\<bar>"
      using a b by (intro pad_inj [OF _ _ _ _ p]) simp_all
    with s show ?thesis by linarith
  qed
qed

lemma dateString_inj:
  assumes v: "validTime t" "validTime u" and e: "dateString t = dateString u"
  shows "Day t = Day u"
proof -
  from e have l: "length (dateString t) = length (dateString u)" by simp
  then have ly: "length (yearString (YearFromTime t)) = length (yearString (YearFromTime u))"
    by (simp add: dateString_def)
  from e have e1: "yearString (YearFromTime t) = yearString (YearFromTime u)"
    and e2: "pad 2 (MonthFromTime t + 1) @ ''-'' @ pad 2 (DateFromTime t)
           = pad 2 (MonthFromTime u + 1) @ ''-'' @ pad 2 (DateFromTime u)"
    unfolding dateString_def using ly by simp_all
  from e2 have e3: "pad 2 (MonthFromTime t + 1) = pad 2 (MonthFromTime u + 1)"
    and e4: "pad 2 (DateFromTime t) = pad 2 (DateFromTime u)"
    by simp_all
  have y: "YearFromTime t = YearFromTime u"
    using YearFromTime_bounds [OF v(1)] YearFromTime_bounds [OF v(2)]
    by (intro yearString_inj [OF _ _ e1]) linarith+
  have "MonthFromTime t + 1 = MonthFromTime u + 1"
    using MonthFromTime_range [of t] MonthFromTime_range [of u]
    by (intro pad_inj [OF _ _ _ _ e3]) simp_all
  then have m: "MonthFromTime t = MonthFromTime u" by simp
  have d: "DateFromTime t = DateFromTime u"
    using DateFromTime_range [of t] DateFromTime_range [of u]
    by (intro pad_inj [OF _ _ _ _ e4]) simp_all
  show ?thesis
    using MakeDay_of_time [of t] MakeDay_of_time [of u] by (simp add: y m d)
qed

lemma dateString_Day: "Day t = Day u \<Longrightarrow> dateString t = dateString u"
  by (simp add: dateString_def YearFromTime_def MonthFromTime_def DateFromTime_def
      DayWithinYear_def InLeapYear_def)

lemma toDateKey_eq_iff:
  "validTime t \<Longrightarrow> validTime u \<Longrightarrow> (toDateKey (Time t) = toDateKey (Time u)) = (Day t = Day u)"
  using dateString_inj [of t u] dateString_Day [of t u] by (auto simp: toDateKey_Time)

subsection \<open>Days and calendar dates\<close>

lemma Day_previous: "Day (t - msPerDay) = Day t - 1"
proof -
  have "t - msPerDay = t + (- 1) * msPerDay" by simp
  then have "(t - msPerDay) div msPerDay = t div msPerDay + (- 1)"
    by (simp only: div_mult_self1 [of msPerDay t "- 1"]) (simp add: msPerDay_def)
  then show ?thesis by (simp add: Day_def)
qed

lemma Day_back: "Day (t - int i * msPerDay) = Day t - int i"
proof (induction i)
  case 0
  show ?case by simp
next
  case (Suc i)
  have "t - int (Suc i) * msPerDay = (t - int i * msPerDay) - msPerDay"
    by (simp add: algebra_simps)
  then have "Day (t - int (Suc i) * msPerDay) = Day (t - int i * msPerDay) - 1"
    by (simp only: Day_previous)
  with Suc show ?case by simp
qed

lemma validTime_previous:
  "validTime t \<Longrightarrow> - 100000000 < Day t \<Longrightarrow> validTime (t - msPerDay)"
  unfolding validTime_def Day_def msPerDay_def by linarith


lemma TimeClip_valid: "validTime t \<Longrightarrow> TimeClip t = Time t"
  by (simp add: validTime_def TimeClip_def)


text \<open>
  The Gregorian calendar as the specification words it: a year is a leap year when it is
  divisible by 4, except centuries not divisible by 400; months are counted from 0.
\<close>

definition isLeapYear :: "int \<Rightarrow> bool" where
  "isLeapYear y = (y mod 4 = 0 \<and> (y mod 100 \<noteq> 0 \<or> y mod 400 = 0))"

definition daysInMonth :: "int \<Rightarrow> int \<Rightarrow> int" where
  "daysInMonth y m =
     (if m = 1 then (if isLeapYear y then 29 else 28)
      else if m = 3 \<or> m = 5 \<or> m = 8 \<or> m = 10 then 30
      else 31)"

lemma DaysInYear_leap: "DaysInYear y = (if isLeapYear y then 366 else 365)"
proof (cases "y mod 4 = 0")
  case False
  then show ?thesis by (simp add: DaysInYear_def isLeapYear_def)
next
  case four: True
  show ?thesis
  proof (cases "y mod 100 = 0")
    case False
    with four show ?thesis by (simp add: DaysInYear_def isLeapYear_def)
  next
    case True
    with four show ?thesis by (simp add: DaysInYear_def isLeapYear_def)
  qed
qed

lemma month_cases:
  fixes m :: int
  assumes "0 \<le> m" "m \<le> 11"
  obtains "m = 0" | "m = 1" | "m = 2" | "m = 3" | "m = 4" | "m = 5" | "m = 6"
    | "m = 7" | "m = 8" | "m = 9" | "m = 10" | "m = 11"
proof -
  have "m = 0 \<or> m = 1 \<or> m = 2 \<or> m = 3 \<or> m = 4 \<or> m = 5 \<or> m = 6
      \<or> m = 7 \<or> m = 8 \<or> m = 9 \<or> m = 10 \<or> m = 11"
    using assms by arith
  then show thesis using that by blast
qed

lemma monthStart_next:
  "0 \<le> m \<Longrightarrow> m \<le> 11 \<Longrightarrow>
   monthStart y m + daysInMonth y m = (if m = 11 then DaysInYear y else monthStart y (m + 1))"
proof -
  assume "0 \<le> m" "m \<le> 11"
  then show ?thesis
    by (cases m rule: month_cases) (simp_all add: monthStart_def daysInMonth_def DaysInYear_leap)
qed

lemma monthStart_nonneg: "0 \<le> monthStart y m"
  by (simp add: monthStart_def Let_def)

lemma monthStart_month_end:
  "0 \<le> m \<Longrightarrow> m \<le> 11 \<Longrightarrow> monthStart y m + daysInMonth y m \<le> DaysInYear y"
proof -
  assume "0 \<le> m" "m \<le> 11"
  then show ?thesis
    by (cases m rule: month_cases) (simp_all add: monthStart_def daysInMonth_def DaysInYear_leap)
qed

lemma civil_of_MakeDay:
  assumes m: "0 \<le> m" "m \<le> 11" and d: "1 \<le> d" "d \<le> daysInMonth y m"
    and t: "Day t = MakeDay y m d"
  shows "YearFromTime t = y \<and> MonthFromTime t = m \<and> DateFromTime t = d"
proof -
  have md: "MakeDay y m d = DayFromYear y + (monthStart y m + d - 1)"
    using m by (simp add: MakeDay_def Let_def)
  have lo: "0 \<le> monthStart y m + d - 1"
    using monthStart_nonneg [of y m] d by simp
  have hi: "monthStart y m + d - 1 < DaysInYear y"
    using monthStart_month_end [OF m, of y] d by simp
  have y: "YearFromTime t = y"
    using lo hi by (intro YearFromTime_eqI) (simp_all add: t md DayFromYear_Suc)
  have w: "DayWithinYear t = monthStart y m + d - 1"
    by (simp add: DayWithinYear_def y t md)
  have l: "InLeapYear t = (if isLeapYear y then 1 else 0)"
    by (simp add: InLeapYear_def y DaysInYear_leap)
  from m have "MonthFromTime t = m \<and> DateFromTime t = d"
    using d
    by (cases m rule: month_cases; cases "isLeapYear y")
      (simp_all add: MonthFromTime_def DateFromTime_def w l monthStart_def
        daysInMonth_def DaysInYear_leap Let_def)
  with y show ?thesis by simp
qed

lemma pad_2: "pad 2 k = [digit (k div 10 mod 10), digit (k mod 10)]"
  by (simp add: numeral_2_eq_2)

lemma pad_4:
  "pad 4 k = [digit (k div 10 div 10 div 10 mod 10), digit (k div 10 div 10 mod 10),
              digit (k div 10 mod 10), digit (k mod 10)]"
  by (simp add: eval_nat_numeral)

lemma digit_values:
  "digit 0 = CHR ''0''" "digit 1 = CHR ''1''" "digit 2 = CHR ''2''" "digit 3 = CHR ''3''"
  "digit 4 = CHR ''4''" "digit 5 = CHR ''5''" "digit 6 = CHR ''6''" "digit 7 = CHR ''7''"
  "digit 8 = CHR ''8''" "digit 9 = CHR ''9''"
  by (simp_all add: digit_def)

lemma dateString_civil:
  assumes "0 \<le> m" "m \<le> 11" "1 \<le> d" "d \<le> daysInMonth y m" "Day t = MakeDay y m d"
  shows "dateString t = yearString y @ ''-'' @ pad 2 (m + 1) @ ''-'' @ pad 2 d"
  using civil_of_MakeDay [OF assms] by (simp add: dateString_def)

lemma MakeDay_2025_06:
  "MakeDay 2025 5 12 = 20251" "MakeDay 2025 5 11 = 20250" "MakeDay 2025 5 10 = 20249"
  "MakeDay 2025 5 9 = 20248"
  by (simp_all add: MakeDay_def DayFromYear_def monthStart_def DaysInYear_def)

lemma dateString_2025_06:
  "Day t = 20251 \<Longrightarrow> dateString t = ''2025-06-12''"
  "Day t = 20250 \<Longrightarrow> dateString t = ''2025-06-11''"
  "Day t = 20249 \<Longrightarrow> dateString t = ''2025-06-10''"
  "Day t = 20248 \<Longrightarrow> dateString t = ''2025-06-09''"
proof -
  have *: "daysInMonth 2025 5 = 30" by (simp add: daysInMonth_def)
  show "Day t = 20251 \<Longrightarrow> dateString t = ''2025-06-12''"
    using dateString_civil [of 5 12 2025 t]
    by (simp add: * MakeDay_2025_06 yearString_def pad_2 pad_4 digit_values)
  show "Day t = 20250 \<Longrightarrow> dateString t = ''2025-06-11''"
    using dateString_civil [of 5 11 2025 t]
    by (simp add: * MakeDay_2025_06 yearString_def pad_2 pad_4 digit_values)
  show "Day t = 20249 \<Longrightarrow> dateString t = ''2025-06-10''"
    using dateString_civil [of 5 10 2025 t]
    by (simp add: * MakeDay_2025_06 yearString_def pad_2 pad_4 digit_values)
  show "Day t = 20248 \<Longrightarrow> dateString t = ''2025-06-09''"
    using dateString_civil [of 5 9 2025 t]
    by (simp add: * MakeDay_2025_06 yearString_def pad_2 pad_4 digit_values)
qed

lemma validTime_back:
  "validTime t \<Longrightarrow> validTime (t - int n * msPerDay) = (- 100000000 \<le> Day t - int n)"
  unfolding validTime_def Day_def msPerDay_def by (cases "0 \<le> int n") (simp_all, linarith)


lemma pad_6:
  "pad 6 k = [digit (k div 10 div 10 div 10 div 10 div 10 mod 10),
              digit (k div 10 div 10 div 10 div 10 mod 10),
              digit (k div 10 div 10 div 10 mod 10), digit (k div 10 div 10 mod 10),
              digit (k div 10 mod 10), digit (k mod 10)]"
  by (simp add: eval_nat_numeral)

lemma dateString_earliest: "Day t = - 100000000 \<Longrightarrow> dateString t = ''-271821-04-20''"
proof -
  assume d: "Day t = - 100000000"
  have "MakeDay (- 271821) 3 20 = - 100000000"
    by (simp add: MakeDay_def DayFromYear_def monthStart_def DaysInYear_def)
  moreover have "daysInMonth (- 271821) 3 = 30" by (simp add: daysInMonth_def)
  ultimately show ?thesis
    using dateString_civil [of 3 20 "- 271821" t] d
    by (simp add: yearString_def pad_2 pad_6 digit_values)
qed

lemma getters_civil:
  assumes "0 \<le> m" "m \<le> 11" "1 \<le> d" "d \<le> daysInMonth y m"
    and "Day (LocalTime z t) = MakeDay y m d"
  shows "getFullYear z (Time t) = Some y" "getMonth z (Time t) = Some m"
    "getDate z (Time t) = Some d"
  using civil_of_MakeDay [OF assms] by (simp_all add: getFullYear_def getMonth_def getDate_def)

lemma MakeDay_2025_06_13: "MakeDay 2025 5 13 = 20252"
  by (simp add: MakeDay_def DayFromYear_def monthStart_def DaysInYear_def)

lemma dateString_2025_06_13: "Day t = 20252 \<Longrightarrow> dateString t = ''2025-06-13''"
proof -
  have "daysInMonth 2025 5 = 30" by (simp add: daysInMonth_def)
  then show "Day t = 20252 \<Longrightarrow> dateString t = ''2025-06-13''"
    using dateString_civil [of 5 13 2025 t]
    by (simp add: MakeDay_2025_06_13 yearString_def pad_2 pad_4 digit_values)
qed

lemma juneIndex_dom: "dom juneIndex = {''2025-06-10'', ''2025-06-11'', ''2025-06-12''}"
  by (auto simp: juneIndex_def)

lemma juneIndexGap_dom: "dom juneIndexGap = {''2025-06-10'', ''2025-06-12''}"
  by (auto simp: juneIndexGap_def)

lemma june_12_noon: "validTime 1749729600000" "Day 1749729600000 = 20251"
  by (simp_all add: validTime_def Day_def msPerDay_def)

lemma june_12_back:
  assumes v: "validTime now" and d: "Day now = 20251"
  shows "dateString now = ''2025-06-12''" "dateString (now - msPerDay) = ''2025-06-11''"
    "dateString (now - 2 * msPerDay) = ''2025-06-10''"
    "dateString (now - 3 * msPerDay) = ''2025-06-09''"
    "validTime (now - msPerDay)" "validTime (now - 3 * msPerDay)"
proof -
  show "dateString now = ''2025-06-12''" by (rule dateString_2025_06) (rule d)
  show "dateString (now - msPerDay) = ''2025-06-11''"
    using Day_back [of now 1] by (intro dateString_2025_06) (simp add: d)
  show "dateString (now - 2 * msPerDay) = ''2025-06-10''"
    using Day_back [of now 2] by (intro dateString_2025_06) (simp add: d)
  show "dateString (now - 3 * msPerDay) = ''2025-06-09''"
    using Day_back [of now 3] by (intro dateString_2025_06) (simp add: d)
  show "validTime (now - msPerDay)"
    using validTime_back [OF v, of 1] by (simp add: d)
  show "validTime (now - 3 * msPerDay)"
    using validTime_back [OF v, of 3] by (simp add: d)
qed

subsection \<open>The loop of \<^verbatim>\<open>getStreak\<close>\<close>


lemma streakLoop_Time:
  "streakLoop z om (Time t) s =
     (case om (dateString t) of
        Some x \<Rightarrow> streakLoop z om (TimeClip (UTC z (LocalTime z t - msPerDay))) (s + 1)
      | None \<Rightarrow> Some (Inr s))"
proof -
  have "setDate z (Time t) (map_option (\<lambda>n. n - 1) (getDate z (Time t)))
          = TimeClip (UTC z (LocalTime z t - msPerDay))"
    by (simp add: getDate_def setDate_previous)
  then show ?thesis
    by (subst streakLoop.simps) (simp add: toDateKey_Time split: option.split)
qed

lemma streakLoop_hit:
  "om (dateString t) = Some x \<Longrightarrow>
   streakLoop z om (Time t) s = streakLoop z om (TimeClip (UTC z (LocalTime z t - msPerDay))) (Suc s)"
  by (simp add: streakLoop_Time)

lemma streakLoop_miss: "om (dateString t) = None \<Longrightarrow> streakLoop z om (Time t) s = Some (Inr s)"
  by (simp add: streakLoop_Time)

lemma getStreak_valid: "validTime now \<Longrightarrow> getStreak z om now = streakLoop z om (Time now) 0"
  by (simp add: getStreak_def copyDate_def TimeClip_valid)

lemmas streakLoop_induct = streakLoop.raw_induct [rotated 1, consumes 1, case_names step]

lemma streakLoop_le_aux:
  "streakLoop z om c s = Some y \<Longrightarrow> \<forall>r. y = Inr r \<longrightarrow> s \<le> r"
proof (induction rule: streakLoop_induct)
  case (step f z om c s y)
  show ?case
  proof (cases "toDateKey c")
    case (Inl e)
    with step(2) show ?thesis by auto
  next
    case (Inr key)
    show ?thesis
    proof (cases "om key")
      case None
      with Inr step(2) show ?thesis by auto
    next
      case (Some x)
      with Inr step(2) have
        "f z om (setDate z c (map_option (\<lambda>n. n - 1) (getDate z c))) (s + 1) = Some y"
        by simp
      from step(1) [OF this] show ?thesis by auto
    qed
  qed
qed

lemma streakLoop_le: "streakLoop z om c s = Some (Inr r) \<Longrightarrow> s \<le> r"
  using streakLoop_le_aux [of z om c s "Inr r"] by simp

lemma streakLoop_subset_aux:
  "streakLoop z om c s = Some y \<Longrightarrow>
   \<forall>r. y = Inr r \<and> dom om' \<subseteq> dom om \<longrightarrow> (\<exists>k\<le>r. streakLoop z om' c s = Some (Inr k))"
proof (induction rule: streakLoop_induct)
  case (step f z om c s y)
  show ?case
  proof (intro allI impI)
    fix r assume a: "y = Inr r \<and> dom om' \<subseteq> dom om"
    show "\<exists>k\<le>r. streakLoop z om' c s = Some (Inr k)"
    proof (cases "toDateKey c")
      case (Inl e)
      with step(2) a show ?thesis by auto
    next
      case (Inr key)
      show ?thesis
      proof (cases "om key")
        case None
        with a have "om' key = None" by (meson domIff subsetD)
        with Inr have "streakLoop z om' c s = Some (Inr s)"
          by (simp add: streakLoop.simps [of z om' c s])
        moreover from None Inr step(2) a have "s = r" by simp
        ultimately show ?thesis by simp
      next
        case (Some x)
        with Inr step(2) have
          "f z om (setDate z c (map_option (\<lambda>n. n - 1) (getDate z c))) (s + 1) = Some y"
          by simp
        from step(1) [OF this] a obtain k where k: "k \<le> r"
          "streakLoop z om' (setDate z c (map_option (\<lambda>n. n - 1) (getDate z c))) (s + 1)
             = Some (Inr k)"
          by blast
        from streakLoop_le [OF k(2)] k(1) have le: "s \<le> r" by simp
        show ?thesis
        proof (cases "om' key")
          case None
          with Inr le show ?thesis by (simp add: streakLoop.simps [of z om' c s])
        next
          case om': (Some x')
          with Inr k show ?thesis by (simp add: streakLoop.simps [of z om' c s])
        qed
      qed
    qed
  qed
qed

lemma streakLoop_subset:
  "dom om' \<subseteq> dom om \<Longrightarrow> streakLoop z om c s = Some (Inr r) \<Longrightarrow>
   \<exists>k\<le>r. streakLoop z om' c s = Some (Inr k)"
  using streakLoop_subset_aux [of z om c s "Inr r" om'] by simp

lemma streakLoop_dom_aux:
  "streakLoop z om c s = Some y \<Longrightarrow> dom om = dom om' \<longrightarrow> streakLoop z om' c s = Some y"
proof (induction rule: streakLoop_induct)
  case (step f z om c s y)
  show ?case
  proof
    assume d: "dom om = dom om'"
    show "streakLoop z om' c s = Some y"
    proof (cases "toDateKey c")
      case (Inl e)
      with step(2) show ?thesis by (simp add: streakLoop.simps [of z om' c s])
    next
      case (Inr key)
      show ?thesis
      proof (cases "om key")
        case None
        with d have "om' key = None" by (metis domIff)
        with None Inr step(2) show ?thesis by (simp add: streakLoop.simps [of z om' c s])
      next
        case (Some x)
        with d obtain x' where x': "om' key = Some x'" by (metis domIff not_Some_eq)
        from Some Inr step(2) have
          "f z om (setDate z c (map_option (\<lambda>n. n - 1) (getDate z c))) (s + 1) = Some y"
          by simp
        from step(1) [OF this] d x' Inr show ?thesis
          by (simp add: streakLoop.simps [of z om' c s])
      qed
    qed
  qed
qed

lemma streakLoop_dom:
  assumes "dom om = dom om'"
  shows "streakLoop z om c s = streakLoop z om' c s"
proof (cases "streakLoop z om c s")
  case (Some y)
  with streakLoop_dom_aux [OF Some] assms show ?thesis by simp
next
  case None
  show ?thesis
  proof (cases "streakLoop z om' c s")
    case (Some y)
    with streakLoop_dom_aux [OF Some, of om] assms None show ?thesis by simp
  next
    case right: None
    with None show ?thesis by simp
  qed
qed


subsection \<open>The loop in a host without clock changes\<close>

lemma streakLoop_fixed:
  "streakLoop (fixedZone c) om (Time t) s =
     (case om (dateString t) of
        Some x \<Rightarrow> streakLoop (fixedZone c) om (TimeClip (t - msPerDay)) (s + 1)
      | None \<Rightarrow> Some (Inr s))"
  by (simp add: streakLoop_Time split: option.split)

lemma streakLoop_counts:
  "validTime t \<Longrightarrow> (\<forall>i<n. dateString (t - int i * msPerDay) \<in> dom om) \<Longrightarrow>
   dateString (t - int n * msPerDay) \<notin> dom om \<Longrightarrow> validTime (t - int n * msPerDay) \<Longrightarrow>
   streakLoop (fixedZone c) om (Time t) s = Some (Inr (s + n))"
proof (induction n arbitrary: t s)
  case 0
  then show ?case by (simp add: streakLoop_fixed split: option.splits) (auto simp: dom_def)
next
  case (Suc n)
  from Suc.prems(2) have here: "dateString t \<in> dom om" by force
  have d: "- 100000000 \<le> Day t - int (Suc n)"
    using validTime_Day [OF Suc.prems(4)] by (simp only: Day_back)
  then have v: "validTime (t - msPerDay)"
    using Suc.prems(1) by (intro validTime_previous) simp_all
  have sh: "t - msPerDay - int i * msPerDay = t - int (Suc i) * msPerDay" for i
    by (simp add: algebra_simps)
  have "streakLoop (fixedZone c) om (Time (t - msPerDay)) (s + 1) = Some (Inr (s + 1 + n))"
  proof (rule Suc.IH [OF v])
    show "\<forall>i<n. dateString (t - msPerDay - int i * msPerDay) \<in> dom om"
      using Suc.prems(2) unfolding sh by auto
    show "dateString (t - msPerDay - int n * msPerDay) \<notin> dom om"
      using Suc.prems(3) unfolding sh .
    show "validTime (t - msPerDay - int n * msPerDay)"
      using Suc.prems(4) unfolding sh .
  qed
  with here show ?case
    by (auto simp add: streakLoop_fixed TimeClip_valid [OF v])
qed





lemma streak_3_of_june:
  assumes v: "validTime now" and d: "Day now = 20251"
    and om: "dom om = {''2025-06-10'', ''2025-06-11'', ''2025-06-12''}"
  shows "streakLoop (fixedZone c) om (Time now) 0 = Some (Inr 3)"
proof -
  note b = june_12_back [OF v d]
  have "\<forall>i<3. dateString (now - int i * msPerDay) \<in> dom om"
  proof (intro allI impI)
    fix i :: nat assume "i < 3"
    then consider "i = 0" | "i = 1" | "i = 2" by linarith
    then show "dateString (now - int i * msPerDay) \<in> dom om"
      by cases (simp_all add: b om)
  qed
  then show ?thesis using streakLoop_counts [OF v, of 3 om c 0] by (simp add: b om)
qed

lemma getStreak_juneIndex: "getStreak (fixedZone c) juneIndex 1749729600000 = Some (Inr 3)"
  using streak_3_of_june [OF june_12_noon juneIndex_dom]
  by (simp add: getStreak_valid [OF june_12_noon(1)])

subsection \<open>Walks across the clock changes of 2025\<close>

lemma MakeDay_2025_11:
  "MakeDay 2025 10 3 = 20395" "MakeDay 2025 10 2 = 20394" "MakeDay 2025 10 1 = 20393"
  "MakeDay 2025 9 31 = 20392"
  by (simp_all add: MakeDay_def DayFromYear_def monthStart_def DaysInYear_def)

lemma MakeDay_2025_03:
  "MakeDay 2025 2 10 = 20157" "MakeDay 2025 2 9 = 20156" "MakeDay 2025 2 8 = 20155"
  "MakeDay 2025 2 5 = 20152" "MakeDay 2025 2 1 = 20148" "MakeDay 2025 1 28 = 20147"
  by (simp_all add: MakeDay_def DayFromYear_def monthStart_def DaysInYear_def)

lemma daysInMonth_2025:
  "daysInMonth 2025 1 = 28" "daysInMonth 2025 2 = 31" "daysInMonth 2025 5 = 30"
  "daysInMonth 2025 9 = 31" "daysInMonth 2025 10 = 30"
  by (simp_all add: daysInMonth_def isLeapYear_def)

lemma dateString_2025_11:
  "Day t = 20395 \<Longrightarrow> dateString t = ''2025-11-03''"
  "Day t = 20394 \<Longrightarrow> dateString t = ''2025-11-02''"
  "Day t = 20393 \<Longrightarrow> dateString t = ''2025-11-01''"
  "Day t = 20392 \<Longrightarrow> dateString t = ''2025-10-31''"
proof -
  show "Day t = 20395 \<Longrightarrow> dateString t = ''2025-11-03''"
    using dateString_civil [of 10 3 2025 t]
    by (simp add: daysInMonth_2025 MakeDay_2025_11 yearString_def pad_2 pad_4 digit_values)
  show "Day t = 20394 \<Longrightarrow> dateString t = ''2025-11-02''"
    using dateString_civil [of 10 2 2025 t]
    by (simp add: daysInMonth_2025 MakeDay_2025_11 yearString_def pad_2 pad_4 digit_values)
  show "Day t = 20393 \<Longrightarrow> dateString t = ''2025-11-01''"
    using dateString_civil [of 10 1 2025 t]
    by (simp add: daysInMonth_2025 MakeDay_2025_11 yearString_def pad_2 pad_4 digit_values)
  show "Day t = 20392 \<Longrightarrow> dateString t = ''2025-10-31''"
    using dateString_civil [of 9 31 2025 t]
    by (simp add: daysInMonth_2025 MakeDay_2025_11 yearString_def pad_2 pad_4 digit_values)
qed

lemma dateString_2025_03:
  "Day t = 20157 \<Longrightarrow> dateString t = ''2025-03-10''"
  "Day t = 20156 \<Longrightarrow> dateString t = ''2025-03-09''"
  "Day t = 20155 \<Longrightarrow> dateString t = ''2025-03-08''"
proof -
  show "Day t = 20157 \<Longrightarrow> dateString t = ''2025-03-10''"
    using dateString_civil [of 2 10 2025 t]
    by (simp add: daysInMonth_2025 MakeDay_2025_03 yearString_def pad_2 pad_4 digit_values)
  show "Day t = 20156 \<Longrightarrow> dateString t = ''2025-03-09''"
    using dateString_civil [of 2 9 2025 t]
    by (simp add: daysInMonth_2025 MakeDay_2025_03 yearString_def pad_2 pad_4 digit_values)
  show "Day t = 20155 \<Longrightarrow> dateString t = ''2025-03-08''"
    using dateString_civil [of 2 8 2025 t]
    by (simp add: daysInMonth_2025 MakeDay_2025_03 yearString_def pad_2 pad_4 digit_values)
qed

text \<open>
  New York, clock at 2025-11-03T00:30Z (19:30 on 2 November, local time). One local day
  back is 19:30 on 1 November, 25 hours earlier, because the clocks went back in between:
  the walk passes from the UTC day 3 November to the UTC day 1 November.
\<close>

lemma newYork_november_steps:
  "TimeClip (UTC newYork2025 (LocalTime newYork2025 1762129800000 - msPerDay)) = Time 1762039800000"
  "TimeClip (UTC newYork2025 (LocalTime newYork2025 1762039800000 - msPerDay)) = Time 1761953400000"
  by (simp_all add: newYork2025_def LocalTime_def UTC_def TimeClip_def msPerDay_def)

lemma newYork_november_keys:
  "dateString 1762129800000 = ''2025-11-03''" "dateString 1762039800000 = ''2025-11-01''"
  "dateString 1761953400000 = ''2025-10-31''"
  by (rule dateString_2025_11, simp add: Day_def msPerDay_def)+

lemma getStreak_newYork_november:
  "getStreak newYork2025 novemberIndexGap 1762129800000 = Some (Inr 2)"
proof -
  have v: "validTime 1762129800000" by (simp add: validTime_def)
  have "streakLoop newYork2025 novemberIndexGap (Time 1762129800000) 0
          = streakLoop newYork2025 novemberIndexGap (Time 1762039800000) (Suc 0)"
    by (subst streakLoop_hit [where x = exampleOutfit])
      (simp_all add: newYork_november_keys newYork_november_steps novemberIndexGap_def)
  also have "\<dots> = streakLoop newYork2025 novemberIndexGap (Time 1761953400000) (Suc (Suc 0))"
    by (subst streakLoop_hit [where x = exampleOutfit])
      (simp_all add: newYork_november_keys newYork_november_steps novemberIndexGap_def)
  also have "\<dots> = Some (Inr (Suc (Suc 0)))"
    by (rule streakLoop_miss) (simp add: newYork_november_keys novemberIndexGap_def)
  finally show ?thesis by (simp add: getStreak_valid [OF v] numeral_2_eq_2)
qed

lemma novemberIndex_dom: "dom novemberIndex = {''2025-11-01'', ''2025-11-02'', ''2025-11-03''}"
  by (auto simp: novemberIndex_def)

lemma getStreak_newYork_november_full:
  "getStreak newYork2025 novemberIndex 1762129800000 = Some (Inr 2)"
proof -
  have v: "validTime 1762129800000" by (simp add: validTime_def)
  have "streakLoop newYork2025 novemberIndex (Time 1762129800000) 0
          = streakLoop newYork2025 novemberIndex (Time 1762039800000) (Suc 0)"
    by (subst streakLoop_hit [where x = exampleOutfit])
      (simp_all add: newYork_november_keys newYork_november_steps novemberIndex_def)
  also have "\<dots> = streakLoop newYork2025 novemberIndex (Time 1761953400000) (Suc (Suc 0))"
    by (subst streakLoop_hit [where x = exampleOutfit])
      (simp_all add: newYork_november_keys newYork_november_steps novemberIndex_def)
  also have "\<dots> = Some (Inr (Suc (Suc 0)))"
    by (rule streakLoop_miss) (simp add: newYork_november_keys novemberIndex_def)
  finally show ?thesis by (simp add: getStreak_valid [OF v] numeral_2_eq_2)
qed

text \<open>
  New York, clock at 2025-03-10T23:30Z (19:30 on 10 March, local time). The second step
  back crosses the change to daylight time and is 23 hours long: it goes from 23:30Z to
  00:30Z of the same UTC day, 9 March, whose key is met twice.
\<close>

lemma newYork_march_steps:
  "TimeClip (UTC newYork2025 (LocalTime newYork2025 1741649400000 - msPerDay)) = Time 1741563000000"
  "TimeClip (UTC newYork2025 (LocalTime newYork2025 1741563000000 - msPerDay)) = Time 1741480200000"
  "TimeClip (UTC newYork2025 (LocalTime newYork2025 1741480200000 - msPerDay)) = Time 1741393800000"
  by (simp_all add: newYork2025_def LocalTime_def UTC_def TimeClip_def msPerDay_def)

lemma newYork_march_keys:
  "dateString 1741649400000 = ''2025-03-10''" "dateString 1741563000000 = ''2025-03-09''"
  "dateString 1741480200000 = ''2025-03-09''" "dateString 1741393800000 = ''2025-03-08''"
  by (rule dateString_2025_03, simp add: Day_def msPerDay_def)+

lemma marchIndex_dom: "dom marchIndex = {''2025-03-09'', ''2025-03-10''}"
  by (auto simp: marchIndex_def)

lemma novemberIndexGap_dom: "dom novemberIndexGap = {''2025-11-01'', ''2025-11-03''}"
  by (auto simp: novemberIndexGap_def)

lemma getStreak_newYork_march:
  "getStreak newYork2025 marchIndex 1741649400000 = Some (Inr 3)"
proof -
  have v: "validTime 1741649400000" by (simp add: validTime_def)
  have "streakLoop newYork2025 marchIndex (Time 1741649400000) 0
          = streakLoop newYork2025 marchIndex (Time 1741563000000) (Suc 0)"
    by (subst streakLoop_hit [where x = exampleOutfit])
      (simp_all add: newYork_march_keys newYork_march_steps marchIndex_def)
  also have "\<dots> = streakLoop newYork2025 marchIndex (Time 1741480200000) (Suc (Suc 0))"
    by (subst streakLoop_hit [where x = exampleOutfit])
      (simp_all add: newYork_march_keys newYork_march_steps marchIndex_def)
  also have "\<dots> = streakLoop newYork2025 marchIndex (Time 1741393800000) (Suc (Suc (Suc 0)))"
    by (subst streakLoop_hit [where x = exampleOutfit])
      (simp_all add: newYork_march_keys newYork_march_steps marchIndex_def)
  also have "\<dots> = Some (Inr (Suc (Suc (Suc 0))))"
    by (rule streakLoop_miss) (simp add: newYork_march_keys marchIndex_def)
  finally show ?thesis by (simp add: getStreak_valid [OF v] numeral_3_eq_3)
qed

text \<open>
  A host two hours east of Greenwich, clock at half past midnight of 12 June 2025, local
  time (2025-06-11T22:30Z): the key of the clock reading is that of 11 June.
\<close>

lemma june_12_local_night:
  "validTime 1749681000000" "Day 1749681000000 = 20250"
  "Day (LocalTime (fixedZone 7200000) 1749681000000) = 20251"
  by (simp_all add: validTime_def Day_def msPerDay_def)

lemma june_11_back:
  assumes v: "validTime now" and d: "Day now = 20250"
  shows "dateString now = ''2025-06-11''" "dateString (now - msPerDay) = ''2025-06-10''"
    "dateString (now - 2 * msPerDay) = ''2025-06-09''" "validTime (now - 2 * msPerDay)"
proof -
  show "dateString now = ''2025-06-11''" by (rule dateString_2025_06) (rule d)
  show "dateString (now - msPerDay) = ''2025-06-10''"
    using Day_back [of now 1] by (intro dateString_2025_06) (simp add: d)
  show "dateString (now - 2 * msPerDay) = ''2025-06-09''"
    using Day_back [of now 2] by (intro dateString_2025_06) (simp add: d)
  show "validTime (now - 2 * msPerDay)"
    using validTime_back [OF v, of 2] by (simp add: d)
qed

lemma getStreak_june_local_night:
  "getStreak (fixedZone c) juneIndex 1749681000000 = Some (Inr 2)"
  "getStreak (fixedZone c) juneIndexGap 1749681000000 = Some (Inr 0)"
proof -
  note v = june_12_local_night(1)
  note b = june_11_back [OF june_12_local_night(1,2)]
  have "\<forall>i<2. dateString (1749681000000 - int i * msPerDay) \<in> dom juneIndex"
  proof (intro allI impI)
    fix i :: nat assume "i < 2"
    then consider "i = 0" | "i = 1" by linarith
    then show "dateString (1749681000000 - int i * msPerDay) \<in> dom juneIndex"
      by cases (simp_all add: b juneIndex_dom)
  qed
  then show "getStreak (fixedZone c) juneIndex 1749681000000 = Some (Inr 2)"
    using streakLoop_counts [OF v, of 2 juneIndex c 0]
    by (simp add: b juneIndex_dom getStreak_valid [OF v])
  show "getStreak (fixedZone c) juneIndexGap 1749681000000 = Some (Inr 0)"
    using streakLoop_counts [OF v, of 0 juneIndexGap c 0] v
    by (simp add: b juneIndexGap_dom getStreak_valid [OF v])
qed

lemma dateString_2025_03_01: "Day t = 20148 \<Longrightarrow> dateString t = ''2025-03-01''"
  using dateString_civil [of 2 1 2025 t]
  by (simp add: daysInMonth_2025 MakeDay_2025_03 yearString_def pad_2 pad_4 digit_values)

subsection \<open>\<^verbatim>\<open>outfitMap\<close>\<close>

definition keyOf :: "(string \<Rightarrow> int option) \<Rightarrow> OutfitEntry \<Rightarrow> jserror + string" where
  "keyOf parse x = toDateKey (parseDate parse (date x))"

lemma toDateKey_cases:
  "(d = Invalid \<and> toDateKey d = Inl RangeError) \<or> (\<exists>t. d = Time t \<and> toDateKey d = Inr (dateString t))"
  by (cases d) (simp_all add: toDateKey_Invalid toDateKey_Time)

lemma outfitMapLoop_last:
  "outfitMapLoop parse xs om = Inr m \<Longrightarrow>
   m k = (case filter (\<lambda>x. keyOf parse x = Inr k) xs of [] \<Rightarrow> om k | y # ys \<Rightarrow> Some (last (y # ys)))"
proof (induction xs arbitrary: om)
  case Nil
  then show ?case by simp
next
  case (Cons x xs)
  from Cons.prems obtain key where key: "keyOf parse x = Inr key"
    and rest: "outfitMapLoop parse xs (om(key \<mapsto> x)) = Inr m"
    by (auto simp: keyOf_def split: sum.splits)
  from Cons.IH [OF rest] key show ?case
    by (auto split: list.splits)
qed

lemma outfitMapLoop_returns:
  "\<forall>x\<in>set xs. parseDate parse (date x) \<noteq> Invalid \<Longrightarrow> \<exists>m. outfitMapLoop parse xs om = Inr m"
proof (induction xs arbitrary: om)
  case Nil
  show ?case by simp
next
  case (Cons x xs)
  from Cons.prems toDateKey_cases [of "parseDate parse (date x)"]
  obtain k where k: "toDateKey (parseDate parse (date x)) = Inr k" by auto
  have "\<exists>m. outfitMapLoop parse xs (om(k \<mapsto> x)) = Inr m"
    using Cons.prems by (intro Cons.IH) simp
  then show ?case by (simp only: outfitMapLoop.simps k sum.case)
qed

lemma outfitMapLoop_throws:
  "x \<in> set xs \<Longrightarrow> parseDate parse (date x) = Invalid \<Longrightarrow>
   outfitMapLoop parse xs om = Inl RangeError"
proof (induction xs arbitrary: om)
  case Nil
  then show ?case by simp
next
  case (Cons y ys)
  from toDateKey_cases [of "parseDate parse (date y)"] show ?case
  proof (elim disjE conjE exE)
    assume "toDateKey (parseDate parse (date y)) = Inl RangeError"
    then show ?thesis by simp
  next
    fix t assume t: "parseDate parse (date y) = Time t"
      and k: "toDateKey (parseDate parse (date y)) = Inr (dateString t)"
    with Cons.prems have "x \<in> set ys" by auto
    from Cons.IH [OF this Cons.prems(2)] k show ?thesis by simp
  qed
qed

lemma example_keys:
  "keyOf exampleParse morningOutfit = Inr ''2025-06-12''"
  "keyOf exampleParse eveningOutfit = Inr ''2025-06-12''"
  "parseDate exampleParse (date morningOutfit) = Time 1749686400000"
  "parseDate exampleParse (date eveningOutfit) = Time 1749753000000"
  "parseDate exampleParse (date brokenOutfit) = Invalid"
  by (simp_all add: keyOf_def parseDate_def exampleParse_def morningOutfit_def eveningOutfit_def
      brokenOutfit_def TimeClip_def toDateKey_Time dateString_2025_06 Day_def msPerDay_def)

lemma strictEq_None [simp]: "strictEq None b = False" "strictEq a None = False"
  by (simp_all add: strictEq_def split: option.splits)

lemma strictEq_Some [simp]: "strictEq (Some x) (Some y) = (x = y)"
  by (simp add: strictEq_def)

lemma getters_Invalid [simp]:
  "getFullYear z Invalid = None" "getMonth z Invalid = None"
  "getDate z Invalid = None" "getDay z Invalid = None"
  by (simp_all add: getFullYear_def getMonth_def getDate_def getDay_def)

lemma thisMonthOutfits_skips_invalid:
  "thisMonthOutfits z parse outfits cm =
   thisMonthOutfits z parse (filter (\<lambda>y. parseDate parse (date y) \<noteq> Invalid) outfits) cm"
proof -
  have "filter P (filter Q xs) = filter P xs" if "\<And>x. P x \<Longrightarrow> Q x"
    for P Q :: "OutfitEntry \<Rightarrow> bool" and xs
    using that by (induction xs) auto
  then show ?thesis
    unfolding thisMonthOutfits_def Let_def by (rule sym) auto
qed

lemma signature_ab: "garmentIds x = [''a'', ''b''] \<Longrightarrow> signature x = ''a,b''"
  "garmentIds x = [''b'', ''a''] \<Longrightarrow> signature x = ''a,b''"
  "garmentIds x = [''c''] \<Longrightarrow> signature x = ''c''"
  by (simp_all add: signature_def)

lemma plain_keys:
  "''a,b'' \<notin> set objectPrototypeKeys" "''c'' \<notin> set objectPrototypeKeys"
  "\<not> isArrayIndex ''a,b''" "\<not> isArrayIndex ''c''"
  by (simp_all add: objectPrototypeKeys_def isArrayIndex_def isDigit_def)

lemma june_month:
  "Day (LocalTime z t) = 20251 \<Longrightarrow> getFullYear z (Time t) = Some 2025"
  "Day (LocalTime z t) = 20251 \<Longrightarrow> getMonth z (Time t) = Some 5"
proof -
  have "daysInMonth 2025 5 = 30" by (simp add: daysInMonth_def)
  then show "Day (LocalTime z t) = 20251 \<Longrightarrow> getFullYear z (Time t) = Some 2025"
    "Day (LocalTime z t) = 20251 \<Longrightarrow> getMonth z (Time t) = Some 5"
    using getters_civil [of 5 12 2025 z t] by (simp_all add: MakeDay_2025_06)
qed

lemma mostWorn_morning:
  "getMostWornThisMonth (fixedZone 0) exampleParse [morningOutfit, brokenOutfit] (Time 1749686400000)
     = Inr (Some (''p1.png'', 1))"
proof -
  have d: "Day (LocalTime (fixedZone 0) 1749686400000) = 20251"
    by (simp add: Day_def msPerDay_def)
  have t: "thisMonthOutfits (fixedZone 0) exampleParse [morningOutfit, brokenOutfit] (Time 1749686400000)
             = [morningOutfit]"
    by (simp add: thisMonthOutfits_def example_keys june_month [OF d])
  have s: "signature morningOutfit = ''a,b''"
    by (rule signature_ab) (simp add: morningOutfit_def)
  have c: "countStep [] morningOutfit = [(''a,b'', \<lparr>count_n = 1, outfit = morningOutfit\<rparr>)]"
    by (simp add: countStep_def s plain_keys)
  have p: "previewImage morningOutfit = ''p1.png''"
    by (simp add: morningOutfit_def)
  show ?thesis
    by (simp add: getMostWornThisMonth_def t c p best_def Object_values_def plain_keys)
qed

subsection \<open>\<^verbatim>\<open>getMostWornThisMonth\<close>: what the result depends on\<close>

lemma signature_mset: "mset (garmentIds x) = mset (garmentIds y) \<Longrightarrow> signature x = signature y"
proof -
  assume m: "mset (garmentIds x) = mset (garmentIds y)"
  have "sort (garmentIds x) = sort (garmentIds y)"
    by (rule properties_for_sort) (simp_all add: m)
  then show ?thesis by (simp add: signature_def)
qed

text \<open>What the result shows of a group: its key, its count and its outfit's image.\<close>

definition groupView :: "string \<times> group \<Rightarrow> string \<times> nat \<times> string" where
  "groupView e = (fst e, count_n (snd e), previewImage (outfit (snd e)))"

definition sameView :: "OutfitEntry \<Rightarrow> OutfitEntry \<Rightarrow> bool" where
  "sameView x y = (signature x = signature y \<and> previewImage x = previewImage y)"

lemma map_of_None_view:
  "map groupView cm = map groupView cm' \<Longrightarrow> (map_of cm k = None) = (map_of cm' k = None)"
proof -
  assume "map groupView cm = map groupView cm'"
  then have "map fst (map groupView cm) = map fst (map groupView cm')" by simp
  then have "map fst cm = map fst cm'" by (simp add: groupView_def comp_def)
  then have "set (map fst cm) = set (map fst cm')" by simp
  then show ?thesis by (simp add: map_of_eq_None_iff)
qed

lemma countStep_view:
  assumes v: "map groupView cm = map groupView cm'" and s: "sameView x y"
  shows "map groupView (countStep cm x) = map groupView (countStep cm' y)"
proof -
  define k where "k = signature x"
  have ky: "signature y = k" using s by (simp add: sameView_def k_def)
  define bump where "bump = (\<lambda>(a, v :: group). if a = k then (a, v\<lparr>count_n := count_n v + 1\<rparr>) else (a, v))"
  define bumpView where
    "bumpView = (\<lambda>(a, n :: nat, p :: string). if a = k then (a, n + 1, p) else (a, n, p))"
  have b: "groupView (bump e) = bumpView (groupView e)" for e
    by (cases e) (simp add: bump_def bumpView_def groupView_def)
  have bm: "map groupView (map bump c) = map bumpView (map groupView c)" for c
    by (simp add: b)
  show ?thesis
  proof (cases "map_of cm k")
    case None
    with map_of_None_view [OF v, of k] have n: "map_of cm' k = None" by simp
    from None n v s show ?thesis
      by (simp add: countStep_def k_def [symmetric] ky groupView_def sameView_def)
  next
    case (Some g)
    with map_of_None_view [OF v, of k] obtain g' where g': "map_of cm' k = Some g'" by auto
    have "countStep cm x = map bump cm"
      by (simp add: countStep_def k_def [symmetric] Some bump_def)
    moreover have "countStep cm' y = map bump cm'"
      by (simp add: countStep_def ky g' bump_def)
    ultimately show ?thesis by (simp only: bm v)
  qed
qed

lemma foldl_countStep_view:
  "list_all2 sameView xs ys \<Longrightarrow> map groupView cm = map groupView cm' \<Longrightarrow>
   map groupView (foldl countStep cm xs) = map groupView (foldl countStep cm' ys)"
proof (induction xs ys arbitrary: cm cm' rule: list_all2_induct)
  case Nil
  then show ?case by simp
next
  case (Cons x xs y ys)
  from countStep_view [OF Cons.prems Cons.hyps(1)] show ?case
    by (simp add: Cons.IH)
qed

lemma insort_key_map: "insort_key f (h x) (map h xs) = map h (insort_key (\<lambda>a. f (h a)) x xs)"
  by (induction xs) simp_all

lemma sort_key_map: "sort_key f (map h xs) = map h (sort_key (\<lambda>a. f (h a)) xs)"
  by (induction xs) (simp_all add: insort_key_map)

lemma filter_map_view: "filter P (map h xs) = map h (filter (\<lambda>a. P (h a)) xs)"
  by (induction xs) simp_all

text \<open>The groups in the order of \<^verbatim>\<open>Object.values\<close>, then sorted, as key, count and image.\<close>

definition rankedView :: "(string \<times> nat \<times> string) list \<Rightarrow> (string \<times> nat \<times> string) list" where
  "rankedView vs =
     sort_key (\<lambda>(k, n, p). - int n)
       (sort_key (\<lambda>(k, n, p). decimalValue k) (filter (\<lambda>(k, n, p). isArrayIndex k) vs)
        @ filter (\<lambda>(k, n, p). \<not> isArrayIndex k) vs)"

definition ranked :: "(string \<times> group) list \<Rightarrow> (string \<times> group) list" where
  "ranked cm =
     sort_key (\<lambda>(k, g). - int (count_n g))
       (sort_key (\<lambda>(k, v). decimalValue k) (filter (\<lambda>(k, v). isArrayIndex k) cm)
        @ filter (\<lambda>(k, v). \<not> isArrayIndex k) cm)"

lemma sorted_values: "sort_key (\<lambda>g. - int (count_n g)) (Object_values cm) = map snd (ranked cm)"
  unfolding Object_values_def ranked_def
  by (simp only: sort_key_map) (simp add: case_prod_unfold)

lemma ranked_view: "map groupView (ranked cm) = rankedView (map groupView cm)"
proof -
  have 1: "(\<lambda>a. case groupView a of (k, n, p) \<Rightarrow> - int n) = (\<lambda>(k, g). - int (count_n g))"
    by (auto simp: groupView_def)
  have 2: "(\<lambda>a. case groupView a of (k, n, p) \<Rightarrow> decimalValue k) = (\<lambda>(k, v). decimalValue k)"
    by (auto simp: groupView_def)
  have 3: "(\<lambda>a. case groupView a of (k, n, p) \<Rightarrow> isArrayIndex k) = (\<lambda>(k, v). isArrayIndex k)"
    by (auto simp: groupView_def)
  have 4: "(\<lambda>a. case groupView a of (k, n, p) \<Rightarrow> \<not> isArrayIndex k) = (\<lambda>(k, v). \<not> isArrayIndex k)"
    by (auto simp: groupView_def)
  show ?thesis
    unfolding rankedView_def ranked_def
    by (simp only: filter_map_view sort_key_map map_append [symmetric] 1 2 3 4)
qed

lemma best_ranked: "best cm = (case ranked cm of [] \<Rightarrow> None | e # _ \<Rightarrow> Some (snd e))"
  by (simp add: best_def sorted_values split: list.splits)

lemma best_view:
  assumes "map groupView cm = map groupView cm'"
  shows "map_option (\<lambda>g. (previewImage (outfit g), count_n g)) (best cm)
       = map_option (\<lambda>g. (previewImage (outfit g), count_n g)) (best cm')"
proof -
  have r: "map groupView (ranked cm) = map groupView (ranked cm')"
    by (simp add: ranked_view assms)
  show ?thesis
  proof (cases "ranked cm")
    case Nil
    with r have "ranked cm' = []" by simp
    with Nil show ?thesis by (simp add: best_ranked)
  next
    case (Cons e es)
    with r obtain e' es' where c: "ranked cm' = e' # es'" and "groupView e = groupView e'"
      by (cases "ranked cm'") auto
    with Cons show ?thesis by (simp add: best_ranked groupView_def)
  qed
qed

lemma result_view:
  assumes "list_all2 sameView xs ys"
  shows "(if length xs = 0 then Inr None
          else case best (foldl countStep [] xs) of
                 None \<Rightarrow> Inl TypeError
               | Some g \<Rightarrow> Inr (Some (previewImage (outfit g), count_n g)))
       = (if length ys = 0 then Inr None
          else case best (foldl countStep [] ys) of
                 None \<Rightarrow> Inl TypeError
               | Some g \<Rightarrow> Inr (Some (previewImage (outfit g), count_n g)))"
proof -
  have l: "length xs = length ys" using assms by (rule list_all2_lengthD)
  have "map groupView (foldl countStep [] xs) = map groupView (foldl countStep [] ys)"
    by (rule foldl_countStep_view [OF assms]) simp
  from best_view [OF this] show ?thesis
    by (auto simp: l split: option.splits)
qed

lemma filter_list_all2:
  "list_all2 Q xs ys \<Longrightarrow> (\<And>a b. Q a b \<Longrightarrow> P a = P' b) \<Longrightarrow>
   list_all2 Q (filter P xs) (filter P' ys)"
  by (induction xs ys rule: list_all2_induct) auto

lemma march_month:
  assumes "Day (LocalTime z t) = 20148 \<or> Day (LocalTime z t) = 20152
           \<or> Day (LocalTime z t) = 20157"
  shows "getFullYear z (Time t) = Some 2025 \<and> getMonth z (Time t) = Some 2"
proof -
  have dim: "daysInMonth 2025 2 = 31" by (simp add: daysInMonth_def)
  from assms show ?thesis
  proof (elim disjE)
    assume "Day (LocalTime z t) = 20148"
    then show ?thesis
      using getters_civil [of 2 1 2025 z t] by (simp add: MakeDay_2025_03 dim)
  next
    assume "Day (LocalTime z t) = 20152"
    then show ?thesis
      using getters_civil [of 2 5 2025 z t] by (simp add: MakeDay_2025_03 dim)
  next
    assume "Day (LocalTime z t) = 20157"
    then show ?thesis
      using getters_civil [of 2 10 2025 z t] by (simp add: MakeDay_2025_03 dim)
  qed
qed

lemma march_examples:
  "parseDate exampleParse (date marchOutfit1) = Time 1740787200000"
  "parseDate exampleParse (date marchOutfit2) = Time 1741132800000"
  "parseDate exampleParse (date marchOutfit3) = Time 1741564800000"
  "getFullYear (fixedZone 0) (Time 1740787200000) = Some 2025" "getMonth (fixedZone 0) (Time 1740787200000) = Some 2"
  "getFullYear (fixedZone 0) (Time 1741132800000) = Some 2025" "getMonth (fixedZone 0) (Time 1741132800000) = Some 2"
  "getFullYear (fixedZone 0) (Time 1741564800000) = Some 2025" "getMonth (fixedZone 0) (Time 1741564800000) = Some 2"
proof -
  show "parseDate exampleParse (date marchOutfit1) = Time 1740787200000"
    "parseDate exampleParse (date marchOutfit2) = Time 1741132800000"
    "parseDate exampleParse (date marchOutfit3) = Time 1741564800000"
    by (simp_all add: parseDate_def exampleParse_def marchOutfit1_def marchOutfit2_def
        marchOutfit3_def TimeClip_def)
  show "getFullYear (fixedZone 0) (Time 1740787200000) = Some 2025" "getMonth (fixedZone 0) (Time 1740787200000) = Some 2"
    using march_month [of "fixedZone 0" 1740787200000] by (simp_all add: Day_def msPerDay_def)
  show "getFullYear (fixedZone 0) (Time 1741132800000) = Some 2025" "getMonth (fixedZone 0) (Time 1741132800000) = Some 2"
    using march_month [of "fixedZone 0" 1741132800000] by (simp_all add: Day_def msPerDay_def)
  show "getFullYear (fixedZone 0) (Time 1741564800000) = Some 2025" "getMonth (fixedZone 0) (Time 1741564800000) = Some 2"
    using march_month [of "fixedZone 0" 1741564800000] by (simp_all add: Day_def msPerDay_def)
qed

lemma three_outfits_groups:
  assumes "garmentIds x1 = [''a'', ''b'']" "garmentIds x2 = [''b'', ''a'']" "garmentIds x3 = [''c'']"
  shows "foldl countStep [] [x1, x2, x3]
           = [(''a,b'', \<lparr>count_n = 2, outfit = x1\<rparr>), (''c'', \<lparr>count_n = 1, outfit = x3\<rparr>)]"
    and "best (foldl countStep [] [x1, x2, x3]) = Some \<lparr>count_n = 2, outfit = x1\<rparr>"
proof -
  note s = signature_ab(1) [OF assms(1)] signature_ab(2) [OF assms(2)] signature_ab(3) [OF assms(3)]
  have 1: "countStep [] x1 = [(''a,b'', \<lparr>count_n = 1, outfit = x1\<rparr>)]"
    by (simp add: countStep_def s plain_keys)
  have 2: "countStep [(''a,b'', \<lparr>count_n = 1, outfit = x1\<rparr>)] x2
             = [(''a,b'', \<lparr>count_n = 2, outfit = x1\<rparr>)]"
    by (simp add: countStep_def s)
  have 3: "countStep [(''a,b'', \<lparr>count_n = 2, outfit = x1\<rparr>)] x3
             = [(''a,b'', \<lparr>count_n = 2, outfit = x1\<rparr>), (''c'', \<lparr>count_n = 1, outfit = x3\<rparr>)]"
    by (simp add: countStep_def s plain_keys)
  show g: "foldl countStep [] [x1, x2, x3]
           = [(''a,b'', \<lparr>count_n = 2, outfit = x1\<rparr>), (''c'', \<lparr>count_n = 1, outfit = x3\<rparr>)]"
  proof -
    have "foldl countStep [] [x1, x2, x3] = countStep (countStep (countStep [] x1) x2) x3"
      by simp
    then show ?thesis by (simp only: 1 2 3)
  qed
  show "best (foldl countStep [] [x1, x2, x3]) = Some \<lparr>count_n = 2, outfit = x1\<rparr>"
    unfolding g by (simp add: best_def Object_values_def plain_keys)
qed

text \<open>
  In every host, replacing the \<^verbatim>\<open>garmentIds\<close> of any one
  outfit of the input by a permutation of them leaves the result of
  \<^verbatim>\<open>getMostWornThisMonth\<close> unchanged, the key of a group being the sorted list joined
  with commas.
\<close>

lemma getMostWornThisMonth_permutation_invariant:
  assumes m: "mset ids = mset (garmentIds x)"
  shows "getMostWornThisMonth z parse (xs @ x\<lparr>garmentIds := ids\<rparr> # ys) cm
           = getMostWornThisMonth z parse (xs @ x # ys) cm"
proof -
  define P where "P = (\<lambda>y::OutfitEntry.
      strictEq (getFullYear z (parseDate parse (date y))) (getFullYear z cm)
      \<and> strictEq (getMonth z (parseDate parse (date y))) (getMonth z cm))"
  have tm: "thisMonthOutfits z parse l cm = filter P l" for l
    by (simp add: thisMonthOutfits_def P_def Let_def)
  define Q where "Q = (\<lambda>a b::OutfitEntry. sameView a b \<and> date a = date b)"
  have r: "Q y y" for y by (simp add: Q_def sameView_def)
  have "Q (x\<lparr>garmentIds := ids\<rparr>) x"
    using signature_mset [of "x\<lparr>garmentIds := ids\<rparr>" x] m by (simp add: Q_def sameView_def)
  then have "list_all2 Q (xs @ x\<lparr>garmentIds := ids\<rparr> # ys) (xs @ x # ys)"
    by (simp add: list_all2_appendI list_all2_refl r)
  then have "list_all2 Q (filter P (xs @ x\<lparr>garmentIds := ids\<rparr> # ys)) (filter P (xs @ x # ys))"
    by (rule filter_list_all2) (simp add: Q_def P_def)
  then have "list_all2 sameView (filter P (xs @ x\<lparr>garmentIds := ids\<rparr> # ys)) (filter P (xs @ x # ys))"
    by (rule list_all2_mono) (simp add: Q_def)
  then show ?thesis
    unfolding getMostWornThisMonth_def Let_def tm by (rule result_view)
qed

subsection \<open>\<^verbatim>\<open>getMostWornThisMonth\<close>: the groups and their order\<close>













subsection \<open>Array indices and the order of \<^verbatim>\<open>Object.values\<close>\<close>









lemma isArrayIndex_bound:
  "isArrayIndex ''4294967294''" "\<not> isArrayIndex ''4294967295''" "\<not> isArrayIndex ''05''"
  "isArrayIndex ''0''" "\<not> isArrayIndex []"
  by (simp_all add: isArrayIndex_def isDigit_def decimalValue_def)









subsection \<open>\<^verbatim>\<open>getMonthGrid\<close>\<close>

lemma pad_count_step:
  fixes n :: nat
  assumes "n mod 7 \<noteq> 0"
  shows "(7 - n mod 7) mod 7 = Suc ((7 - Suc n mod 7) mod 7)"
proof -
  define r where "r = n mod 7"
  have r: "0 < r" "r < 7" using assms by (simp_all add: r_def)
  have s: "Suc n mod 7 = (if Suc r = 7 then 0 else Suc r)"
    by (simp add: mod_Suc r_def)
  show ?thesis
    unfolding s r_def [symmetric] using r by (cases "Suc r = 7") simp_all
qed

lemma padLoop_eq: "padLoop grid = grid @ replicate ((7 - length grid mod 7) mod 7) None"
proof (induction grid rule: padLoop.induct)
  case (1 grid)
  show ?case
  proof (cases "length grid mod 7 = 0")
    case True
    then show ?thesis by (simp add: padLoop.simps [of grid])
  next
    case False
    from "1.IH" [OF False] have "padLoop grid
        = grid @ None # replicate ((7 - Suc (length grid) mod 7) mod 7) None"
      using False by (simp add: padLoop.simps [of grid])
    also have "None # replicate ((7 - Suc (length grid) mod 7) mod 7) None
        = replicate ((7 - length grid mod 7) mod 7) (None :: 'a option)"
      by (simp only: pad_count_step [OF False] replicate_Suc)
    finally show ?thesis .
  qed
qed

lemma length_padLoop: "length (padLoop grid) mod 7 = 0"
proof (induction grid rule: padLoop.induct)
  case (1 grid)
  then show ?case by (cases "length grid mod 7 = 0") (simp_all add: padLoop.simps [of grid])
qed

lemma Day_days: "Day (d * msPerDay) = d"
  by (simp add: Day_def msPerDay_def)

lemma DayFromYear_range:
  assumes "- 271820 \<le> y" "y \<le> 275759"
  shows "- 99999744 \<le> DayFromYear y" "DayFromYear (y + 1) \<le> 99999744"
proof -
  have "DayFromYear (- 271820) = - 99999744" by (simp add: DayFromYear_def)
  with DayFromYear_mono [OF assms(1)] show "- 99999744 \<le> DayFromYear y" by simp
  have "DayFromYear 275760 = 99999744" by (simp add: DayFromYear_def)
  with DayFromYear_mono [of "y + 1" 275760] assms(2) show "DayFromYear (y + 1) \<le> 99999744"
    by simp
qed

lemma MakeDay_in_year:
  assumes "0 \<le> m" "m \<le> 11" "1 \<le> d" "d \<le> daysInMonth y m"
  shows "DayFromYear y \<le> MakeDay y m d" "MakeDay y m d < DayFromYear (y + 1)"
proof -
  have md: "MakeDay y m d = DayFromYear y + (monthStart y m + d - 1)"
    using assms(1,2) by (simp add: MakeDay_def Let_def)
  show "DayFromYear y \<le> MakeDay y m d"
    using monthStart_nonneg [of y m] assms(3) by (simp add: md)
  show "MakeDay y m d < DayFromYear (y + 1)"
    using monthStart_month_end [OF assms(1,2), of y] assms(4) by (simp add: md DayFromYear_Suc)
qed

lemma daysInMonth_pos: "28 \<le> daysInMonth y m"
  by (simp add: daysInMonth_def)

lemma MakeDay_month_end:
  assumes "0 \<le> m" "m \<le> 11"
  shows "MakeDay y (m + 1) 0 = MakeDay y m (daysInMonth y m)"
proof (cases "m = 11")
  case True
  have "MakeDay y 12 0 = DayFromYear (y + 1) - 1"
    by (simp add: MakeDay_def monthStart_def)
  moreover have "MakeDay y 11 (daysInMonth y 11) = DayFromYear y + DaysInYear y - 1"
    using monthStart_next [of 11 y] by (simp add: MakeDay_def Let_def)
  ultimately show ?thesis using True by (simp add: DayFromYear_Suc)
next
  case False
  with assms have m: "(m + 1) div 12 = 0" "(m + 1) mod 12 = m + 1" "m div 12 = 0" "m mod 12 = m"
    by simp_all
  from monthStart_next [OF assms, of y] False show ?thesis
    by (simp add: MakeDay_def m)
qed

text \<open>
  What the layout needs of the host's zone: offsets of less than a day, and that the
  local midnight of every day, read back in local time, lies on that day (a clock change
  that skips midnight leaves the first instant of the day on the day).
\<close>

definition plainZone :: "zone \<Rightarrow> bool" where
  "plainZone z = ((\<forall>t. \<bar>offsetOfLocal z t\<bar> < msPerDay)
                  \<and> (\<forall>d. Day (LocalTime z (UTC z (d * msPerDay))) = d))"

lemma plainZone_fixed: "\<bar>c\<bar> < msPerDay \<Longrightarrow> plainZone (fixedZone c)"
proof -
  assume c: "\<bar>c\<bar> < msPerDay"
  have "offsetOfLocal (fixedZone c) t = c" for t by (simp add: fixedZone_def)
  with c show ?thesis by (simp add: plainZone_def Day_days)
qed

lemma newYork2025_midnight: "LocalTime newYork2025 (UTC newYork2025 (d * msPerDay)) = d * msPerDay"
proof -
  consider "d \<le> 20156" | "20157 \<le> d" "d \<le> 20394" | "20395 \<le> d" by linarith
  then show ?thesis
    by cases (simp_all add: newYork2025_def LocalTime_def UTC_def msPerDay_def)
qed

lemma plainZone_newYork2025: "plainZone newYork2025"
proof -
  have "\<bar>offsetOfLocal newYork2025 t\<bar> < msPerDay" for t
    by (simp add: newYork2025_def msPerDay_def)
  then show ?thesis by (simp add: plainZone_def newYork2025_midnight Day_days)
qed

lemma newDate_in_range:
  assumes y: "year < 0 \<or> 99 < year" "- 271820 \<le> year" "year \<le> 275759"
    and m: "0 \<le> month" "month \<le> 11" and z: "plainZone z"
    and d: "1 \<le> d" "d \<le> daysInMonth year month"
  shows "newDate z year month d = Time (UTC z (MakeDay year month d * msPerDay))"
    and "Day (LocalTime z (UTC z (MakeDay year month d * msPerDay))) = MakeDay year month d"
proof -
  have f: "MakeFullYear year = year" using y(1) by (auto simp: MakeFullYear_def)
  note r = DayFromYear_range [OF y(2,3)] MakeDay_in_year [OF m d]
  from z have "\<bar>offsetOfLocal z (MakeDay year month d * msPerDay)\<bar> < msPerDay"
    by (simp add: plainZone_def)
  then have "\<bar>MakeDay year month d * 86400000
      - offsetOfLocal z (MakeDay year month d * 86400000)\<bar> \<le> 8640000000000000"
    using r by (simp add: msPerDay_def)
  then show "newDate z year month d = Time (UTC z (MakeDay year month d * msPerDay))"
    by (simp add: newDate_def f MakeTime_def MakeDate_def UTC_def TimeClip_def msPerDay_def)
  from z show "Day (LocalTime z (UTC z (MakeDay year month d * msPerDay))) = MakeDay year month d"
    by (simp add: plainZone_def)
qed

lemma grid_cell:
  assumes y: "year < 0 \<or> 99 < year" "- 271820 \<le> year" "year \<le> 275759"
    and m: "0 \<le> month" "month \<le> 11" and z: "plainZone z"
    and d: "1 \<le> d" "d \<le> daysInMonth year month"
  shows "getFullYear z (newDate z year month d) = Some year"
    "getMonth z (newDate z year month d) = Some month"
    "getDate z (newDate z year month d) = Some d"
    "getDay z (newDate z year month d) = Some (WeekDay (MakeDate (MakeDay year month d) 0))"
proof -
  note n = newDate_in_range [OF y m z d]
  show "getFullYear z (newDate z year month d) = Some year"
    "getMonth z (newDate z year month d) = Some month"
    "getDate z (newDate z year month d) = Some d"
    unfolding n(1) by (rule getters_civil [OF m d n(2)])+
  show "getDay z (newDate z year month d) = Some (WeekDay (MakeDate (MakeDay year month d) 0))"
    unfolding n(1) using n(2) by (simp add: getDay_def WeekDay_def MakeDate_def Day_days)
qed

lemma getMonthGrid_shape:
  assumes y: "year < 0 \<or> 99 < year" "- 271820 \<le> year" "year \<le> 275759"
    and m: "0 \<le> month" "month \<le> 11" and z: "plainZone z"
  shows "getMonthGrid z year month =
     replicate (nat (WeekDay (MakeDate (MakeDay year month 1) 0))) None
     @ map (\<lambda>d. Some (newDate z year month d)) [1..daysInMonth year month]
     @ replicate ((7 - (nat (WeekDay (MakeDate (MakeDay year month 1) 0))
                        + nat (daysInMonth year month)) mod 7) mod 7) None"
proof -
  note p = daysInMonth_pos [of year month]
  have first: "getDay z (newDate z year month 1)
                 = Some (WeekDay (MakeDate (MakeDay year month 1) 0))"
    using p by (intro grid_cell(4) [OF y m z]) simp_all
  have f: "MakeFullYear year = year" using y(1) by (auto simp: MakeFullYear_def)
  have "newDate z year (month + 1) 0 = newDate z year month (daysInMonth year month)"
    by (simp add: newDate_def f MakeDay_month_end [OF m])
  moreover have "getDate z (newDate z year month (daysInMonth year month))
                   = Some (daysInMonth year month)"
    using p by (intro grid_cell(3) [OF y m z]) simp_all
  ultimately have last: "getDate z (newDate z year (month + 1) 0) = Some (daysInMonth year month)"
    by simp
  show ?thesis
    unfolding getMonthGrid_def Let_def first last
    by (simp add: padLoop_eq)
qed

lemma getMonthGrid_two_digit_year:
  assumes "0 \<le> year" "year \<le> 99"
  shows "getMonthGrid z year month = getMonthGrid z (1900 + year) month"
proof -
  from assms have "MakeFullYear year = 1900 + year" "MakeFullYear (1900 + year) = 1900 + year"
    by (simp_all add: MakeFullYear_def)
  then have "newDate z year = newDate z (1900 + year)"
    by (intro ext) (simp add: newDate_def)
  then show ?thesis unfolding getMonthGrid_def by (simp only:)
qed

lemma newDate_out_of_range:
  assumes y: "year < - 271821 \<or> 275760 < year"
    and m: "0 \<le> month" "month \<le> 11"
    and z: "\<forall>t. \<bar>offsetOfLocal z t\<bar> < msPerDay"
    and d: "1 \<le> d" "d \<le> daysInMonth year month"
  shows "newDate z year month d = Invalid"
proof -
  have f: "MakeFullYear year = year" using y by (auto simp: MakeFullYear_def)
  note r = MakeDay_in_year [OF m d]
  have lo: "DayFromYear (- 271821) = - 100000109" by (simp add: DayFromYear_def)
  have hi: "DayFromYear 275761 = 100000110" by (simp add: DayFromYear_def)
  from z have o: "\<bar>offsetOfLocal z (MakeDay year month d * 86400000)\<bar> < 86400000"
    by (simp add: msPerDay_def)
  from y have "8640000000000000 < \<bar>MakeDay year month d * 86400000
      - offsetOfLocal z (MakeDay year month d * 86400000)\<bar>"
  proof
    assume "year < - 271821"
    then have "year + 1 \<le> - 271821" by simp
    from DayFromYear_mono [OF this] r(2) lo have "MakeDay year month d < - 100000109" by simp
    with o show ?thesis by linarith
  next
    assume "275760 < year"
    then have "275761 \<le> year" by simp
    from DayFromYear_mono [OF this] r(1) hi have "100000110 \<le> MakeDay year month d" by simp
    with o show ?thesis by linarith
  qed
  then show ?thesis
    by (simp add: newDate_def f MakeTime_def MakeDate_def UTC_def TimeClip_def msPerDay_def)
qed

lemma getMonthGrid_out_of_range:
  assumes y: "year < - 271821 \<or> 275760 < year"
    and m: "0 \<le> month" "month \<le> 11"
    and z: "\<forall>t. \<bar>offsetOfLocal z t\<bar> < msPerDay"
  shows "getMonthGrid z year month = []"
proof -
  note p = daysInMonth_pos [of year month]
  have f: "MakeFullYear year = year" using y by (auto simp: MakeFullYear_def)
  have first: "newDate z year month 1 = Invalid"
    using p by (intro newDate_out_of_range [OF y m z]) simp_all
  have "newDate z year (month + 1) 0 = newDate z year month (daysInMonth year month)"
    by (simp add: newDate_def f MakeDay_month_end [OF m])
  moreover have "newDate z year month (daysInMonth year month) = Invalid"
    using p by (intro newDate_out_of_range [OF y m z]) simp_all
  ultimately have last: "newDate z year (month + 1) 0 = Invalid" by simp
  show ?thesis
    unfolding getMonthGrid_def Let_def first last
    by (simp add: padLoop_eq)
qed

section \<open>The claims\<close>

text \<open>
  C1, at the failing input. In a zone two hours east of Greenwich, the month grid's cell
  for 12 June 2025 (\<^verbatim>\<open>new Date(2025, 5, 12)\<close>, local midnight) and noon of the same local
  day are both 12 June 2025 for \<^verbatim>\<open>getFullYear\<close>, \<^verbatim>\<open>getMonth\<close> and \<^verbatim>\<open>getDate\<close>, yet
  \<^verbatim>\<open>toDateKey\<close> prints two different keys and \<^verbatim>\<open>isSameDay\<close> is false: the key is the
  UTC day, the calendar day everywhere else in the screen is the local one.
\<close>

theorem toDateKey_splits_local_day:
  "newDate (fixedZone 7200000) 2025 5 12 = Time 1749679200000
   \<and> getFullYear (fixedZone 7200000) (Time 1749679200000) = Some 2025
   \<and> getMonth (fixedZone 7200000) (Time 1749679200000) = Some 5
   \<and> getDate (fixedZone 7200000) (Time 1749679200000) = Some 12
   \<and> getFullYear (fixedZone 7200000) (Time 1749722400000) = Some 2025
   \<and> getMonth (fixedZone 7200000) (Time 1749722400000) = Some 5
   \<and> getDate (fixedZone 7200000) (Time 1749722400000) = Some 12
   \<and> toDateKey (Time 1749679200000) = Inr ''2025-06-11''
   \<and> toDateKey (Time 1749722400000) = Inr ''2025-06-12''
   \<and> isSameDay (Time 1749679200000) (Time 1749722400000) = Inr False"
proof -
  have n: "newDate (fixedZone 7200000) 2025 5 12 = Time 1749679200000"
    by (simp add: newDate_def MakeFullYear_def MakeDay_2025_06 MakeDate_def MakeTime_def
        TimeClip_def msPerDay_def)
  have a: "Day (LocalTime (fixedZone 7200000) 1749679200000) = MakeDay 2025 5 12"
    by (simp add: MakeDay_2025_06 Day_def msPerDay_def)
  have b: "Day (LocalTime (fixedZone 7200000) 1749722400000) = MakeDay 2025 5 12"
    by (simp add: MakeDay_2025_06 Day_def msPerDay_def)
  have ka: "toDateKey (Time 1749679200000) = Inr ''2025-06-11''"
    by (simp add: toDateKey_Time dateString_2025_06 Day_def msPerDay_def)
  have kb: "toDateKey (Time 1749722400000) = Inr ''2025-06-12''"
    by (simp add: toDateKey_Time dateString_2025_06 Day_def msPerDay_def)
  have s: "isSameDay (Time 1749679200000) (Time 1749722400000) = Inr False"
    by (simp add: isSameDay_def ka kb)
  show ?thesis
    using getters_civil [OF _ _ _ _ a] getters_civil [OF _ _ _ _ b]
    by (simp add: n daysInMonth_2025 ka kb s)
qed

text \<open>
  C2, at two failing inputs. The walk steps back one local day at a time and looks up
  the key of the UTC day, so the days it checks are not the consecutive calendar days
  ending today.

  In a host two hours east of Greenwich, at half past midnight of 12 June 2025 (local
  time), today is 12 June for \<^verbatim>\<open>getFullYear\<close>, \<^verbatim>\<open>getMonth\<close> and \<^verbatim>\<open>getDate\<close>. With index
  entries exactly for 2025-06-10, 2025-06-11 and 2025-06-12 the result is 2, not 3, and
  with 2025-06-11 removed it is 0, not 1: the first key looked up is 2025-06-11.

  In New York at 2025-11-03T00:30Z (19:30 on 2 November, local time), with entries for
  2025-11-01 and 2025-11-03 only, the result is 2 although 2 November has no entry: the
  step back from the first date is 25 hours long and passes over the UTC day 2 November.
  With entries for all three days the result is 2 as well, not 3: the key 2025-11-02 is
  never looked up.
\<close>

theorem getStreak_not_consecutive_days:
  "getFullYear (fixedZone 7200000) (Time 1749681000000) = Some 2025
   \<and> getMonth (fixedZone 7200000) (Time 1749681000000) = Some 5
   \<and> getDate (fixedZone 7200000) (Time 1749681000000) = Some 12
   \<and> toDateKey (Time 1749681000000) = Inr ''2025-06-11''
   \<and> dom juneIndex = {''2025-06-10'', ''2025-06-11'', ''2025-06-12''}
   \<and> getStreak (fixedZone 7200000) juneIndex 1749681000000 = Some (Inr 2)
   \<and> dom juneIndexGap = {''2025-06-10'', ''2025-06-12''}
   \<and> getStreak (fixedZone 7200000) juneIndexGap 1749681000000 = Some (Inr 0)
   \<and> getFullYear newYork2025 (Time 1762129800000) = Some 2025
   \<and> getMonth newYork2025 (Time 1762129800000) = Some 10
   \<and> getDate newYork2025 (Time 1762129800000) = Some 2
   \<and> toDateKey (Time 1762129800000) = Inr ''2025-11-03''
   \<and> dom novemberIndexGap = {''2025-11-01'', ''2025-11-03''}
   \<and> getStreak newYork2025 novemberIndexGap 1762129800000 = Some (Inr 2)
   \<and> dom novemberIndex = {''2025-11-01'', ''2025-11-02'', ''2025-11-03''}
   \<and> getStreak newYork2025 novemberIndex 1762129800000 = Some (Inr 2)"
proof -
  have a: "Day (LocalTime (fixedZone 7200000) 1749681000000) = MakeDay 2025 5 12"
    by (simp add: MakeDay_2025_06 Day_def msPerDay_def)
  have b: "Day (LocalTime newYork2025 1762129800000) = MakeDay 2025 10 2"
    by (simp add: MakeDay_2025_11 newYork2025_def LocalTime_def Day_def msPerDay_def)
  have ka: "toDateKey (Time 1749681000000) = Inr ''2025-06-11''"
    by (simp add: toDateKey_Time june_11_back [OF june_12_local_night(1,2)])
  have kb: "toDateKey (Time 1762129800000) = Inr ''2025-11-03''"
    by (simp add: toDateKey_Time newYork_november_keys)
  show ?thesis
    using getters_civil [OF _ _ _ _ a] getters_civil [OF _ _ _ _ b]
    by (simp add: daysInMonth_2025 ka kb juneIndex_dom juneIndexGap_dom novemberIndexGap_dom
        novemberIndex_dom getStreak_june_local_night getStreak_newYork_november
        getStreak_newYork_november_full)
qed

text \<open>
  C3 as stated fails for a year a Date cannot hold: \<^verbatim>\<open>new Date(300000, 0, 1)\<close> is an
  Invalid Date, both counting loops compare against NaN, and the grid for January of
  that year is empty, although January has 31 days.
\<close>

theorem getMonthGrid_year_out_of_range:
  "getMonthGrid (fixedZone 0) 300000 0 = [] \<and> daysInMonth 300000 0 = 31"
proof -
  have "MakeDay 300000 0 1 = 108853222" "MakeDay 300000 1 0 = 108853252"
    by (simp_all add: MakeDay_def DayFromYear_def monthStart_def DaysInYear_def)
  then have "newDate (fixedZone 0) 300000 0 1 = Invalid"
    "newDate (fixedZone 0) 300000 (0 + 1) 0 = Invalid"
    by (simp_all add: newDate_def MakeFullYear_def MakeDate_def MakeTime_def
        TimeClip_def msPerDay_def)
  then have "getMonthGrid (fixedZone 0) 300000 0 = padLoop []"
    by (simp add: getMonthGrid_def)
  then show ?thesis
    by (simp add: padLoop.simps [of "[]"] daysInMonth_def)
qed

text \<open>
  C3, as the code has it. The length of the grid is a multiple of 7 for every year and
  month. Take a host whose zone offsets are less than a day and where the local midnight
  of every day, read back in local time, lies on that day. For a year from -271820 to
  275759 other than 0 to 99 and a month index from 0 to 11 the grid is: one blank per
  weekday index of the 1st of the month (0 = Sunday), then one cell per day of the month,
  each the Date whose local year, month and day are the cell's, then blanks up to the
  next multiple of 7. In such a host the grid of (2024, 1) has four blanks, 29 day cells
  and two blanks. In every host the grid of a year from 0 to 99 is the grid of that year
  plus 1900. With zone offsets of less than a day, the grid of a year after 275760 or
  before -271821 is empty for every month index from 0 to 11.
\<close>

theorem getMonthGrid_layout:
  "length (getMonthGrid z year month) mod 7 = 0
   \<and> ((year < 0 \<or> 99 < year) \<and> - 271820 \<le> year \<and> year \<le> 275759
       \<and> 0 \<le> month \<and> month \<le> 11
       \<and> (\<forall>t. \<bar>offsetOfLocal z t\<bar> < msPerDay)
       \<and> (\<forall>d. Day (LocalTime z (UTC z (d * msPerDay))) = d)
      \<longrightarrow> getMonthGrid z year month =
            replicate (nat (WeekDay (MakeDate (MakeDay year month 1) 0))) None
            @ map (\<lambda>d. Some (newDate z year month d)) [1..daysInMonth year month]
            @ replicate ((7 - (nat (WeekDay (MakeDate (MakeDay year month 1) 0))
                               + nat (daysInMonth year month)) mod 7) mod 7) None
          \<and> getDay z (newDate z year month 1)
              = Some (WeekDay (MakeDate (MakeDay year month 1) 0))
          \<and> (\<forall>d\<in>{1..daysInMonth year month}.
                getFullYear z (newDate z year month d) = Some year
                \<and> getMonth z (newDate z year month d) = Some month
                \<and> getDate z (newDate z year month d) = Some d))
   \<and> ((\<forall>t. \<bar>offsetOfLocal z t\<bar> < msPerDay)
       \<and> (\<forall>d. Day (LocalTime z (UTC z (d * msPerDay))) = d)
      \<longrightarrow> getMonthGrid z 2024 1 =
            replicate 4 None @ map (\<lambda>d. Some (newDate z 2024 1 d)) [1..29] @ replicate 2 None
          \<and> length (filter (\<lambda>c. c \<noteq> None) (getMonthGrid z 2024 1)) = 29)
   \<and> (0 \<le> year \<and> year \<le> 99
      \<longrightarrow> getMonthGrid z year month = getMonthGrid z (1900 + year) month)
   \<and> ((year < - 271821 \<or> 275760 < year) \<and> 0 \<le> month \<and> month \<le> 11
       \<and> (\<forall>t. \<bar>offsetOfLocal z t\<bar> < msPerDay)
      \<longrightarrow> getMonthGrid z year month = [])"
proof (intro conjI impI)
  show "length (getMonthGrid z year month) mod 7 = 0"
    by (simp add: getMonthGrid_def Let_def length_padLoop)
next
  assume a: "(year < 0 \<or> 99 < year) \<and> - 271820 \<le> year \<and> year \<le> 275759
       \<and> 0 \<le> month \<and> month \<le> 11
       \<and> (\<forall>t. \<bar>offsetOfLocal z t\<bar> < msPerDay)
       \<and> (\<forall>d. Day (LocalTime z (UTC z (d * msPerDay))) = d)"
  then have y: "year < 0 \<or> 99 < year" "- 271820 \<le> year" "year \<le> 275759"
    and m: "0 \<le> month" "month \<le> 11" and z: "plainZone z"
    by (simp_all add: plainZone_def)
  show "getMonthGrid z year month =
            replicate (nat (WeekDay (MakeDate (MakeDay year month 1) 0))) None
            @ map (\<lambda>d. Some (newDate z year month d)) [1..daysInMonth year month]
            @ replicate ((7 - (nat (WeekDay (MakeDate (MakeDay year month 1) 0))
                               + nat (daysInMonth year month)) mod 7) mod 7) None"
    by (rule getMonthGrid_shape [OF y m z])
  show "getDay z (newDate z year month 1)
              = Some (WeekDay (MakeDate (MakeDay year month 1) 0))"
    using daysInMonth_pos [of year month] by (intro grid_cell(4) [OF y m z]) simp_all
  show "\<forall>d\<in>{1..daysInMonth year month}.
                getFullYear z (newDate z year month d) = Some year
                \<and> getMonth z (newDate z year month d) = Some month
                \<and> getDate z (newDate z year month d) = Some d"
    using grid_cell(1,2,3) [OF y m z] by simp
next
  assume "(\<forall>t. \<bar>offsetOfLocal z t\<bar> < msPerDay)
       \<and> (\<forall>d. Day (LocalTime z (UTC z (d * msPerDay))) = d)"
  then have z: "plainZone z" by (simp add: plainZone_def)
  have w: "WeekDay (MakeDate (MakeDay 2024 1 1) 0) = 4"
    by (simp add: WeekDay_def MakeDate_def Day_days MakeDay_def DayFromYear_def monthStart_def
        DaysInYear_def)
  have d: "daysInMonth 2024 1 = 29"
    by (simp add: daysInMonth_def isLeapYear_def)
  from getMonthGrid_shape [of 2024 1 z] z
  show g: "getMonthGrid z 2024 1 =
            replicate 4 None @ map (\<lambda>d. Some (newDate z 2024 1 d)) [1..29] @ replicate 2 None"
    by (simp add: w d)
  have "length [1..29::int] = 29" by simp
  then show "length (filter (\<lambda>c. c \<noteq> None) (getMonthGrid z 2024 1)) = 29"
    unfolding g by (simp add: comp_def)
next
  assume "0 \<le> year \<and> year \<le> 99"
  then show "getMonthGrid z year month = getMonthGrid z (1900 + year) month"
    by (intro getMonthGrid_two_digit_year) simp_all
next
  assume "(year < - 271821 \<or> 275760 < year) \<and> 0 \<le> month \<and> month \<le> 11
       \<and> (\<forall>t. \<bar>offsetOfLocal z t\<bar> < msPerDay)"
  then show "getMonthGrid z year month = []"
    by (intro getMonthGrid_out_of_range) simp_all
qed

theorem getMonthGrid_layout_witness:
  "99 < (2025::int) \<and> - 271820 \<le> (2025::int) \<and> (2025::int) \<le> 275759
   \<and> (0::int) \<le> 2 \<and> (2::int) \<le> 11
   \<and> (\<forall>t. \<bar>offsetOfLocal newYork2025 t\<bar> < msPerDay)
   \<and> (\<forall>d. Day (LocalTime newYork2025 (UTC newYork2025 (d * msPerDay))) = d)
   \<and> getMonthGrid newYork2025 2025 2
       = replicate 6 None @ map (\<lambda>d. Some (newDate newYork2025 2025 2 d)) [1..31]
         @ replicate 5 None
   \<and> getDate newYork2025 (newDate newYork2025 2025 2 9) = Some 9
   \<and> length (getMonthGrid newYork2025 2025 2) = 42
   \<and> getMonthGrid newYork2025 24 1 = getMonthGrid newYork2025 1924 1
   \<and> (275760::int) < 300000
   \<and> getMonthGrid newYork2025 300000 0 = []"
proof -
  from plainZone_newYork2025
  have z: "\<forall>t. \<bar>offsetOfLocal newYork2025 t\<bar> < msPerDay"
    "\<forall>d. Day (LocalTime newYork2025 (UTC newYork2025 (d * msPerDay))) = d"
    by (simp_all add: plainZone_def)
  have w: "WeekDay (MakeDate (MakeDay 2025 2 1) 0) = 6"
    by (simp add: WeekDay_def MakeDate_def Day_days MakeDay_def DayFromYear_def monthStart_def
        DaysInYear_def)
  have d: "daysInMonth 2025 2 = 31"
    by (simp add: daysInMonth_def)
  note l = getMonthGrid_layout [where z = newYork2025 and year = 2025 and month = 2]
  from l z have g: "getMonthGrid newYork2025 2025 2
       = replicate 6 None @ map (\<lambda>d. Some (newDate newYork2025 2025 2 d)) [1..31]
         @ replicate 5 None"
    by (simp add: w d)
  from l z
  have "\<forall>d\<in>{1..daysInMonth 2025 2}. getDate newYork2025 (newDate newYork2025 2025 2 d) = Some d"
    by simp
  then have c: "getDate newYork2025 (newDate newYork2025 2025 2 9) = Some 9"
    by (simp add: d)
  have "length [1..31::int] = 31" by simp
  then have n: "length (getMonthGrid newYork2025 2025 2) = 42"
    unfolding g by simp
  from getMonthGrid_layout [where z = newYork2025 and year = 24 and month = 1]
  have t: "getMonthGrid newYork2025 24 1 = getMonthGrid newYork2025 1924 1" by simp
  from getMonthGrid_layout [where z = newYork2025 and year = 300000 and month = 0] z
  have e: "getMonthGrid newYork2025 300000 0 = []" by simp
  from g c n t e z show ?thesis by simp
qed

text \<open>
  C4, at the failing input. A host five hours west of Greenwich shows March 2025; the
  three outfits are dated 2025-03-01, 2025-03-05 and 2025-03-10, with garments a b, then
  b a, then c. \<^verbatim>\<open>new Date("2025-03-01")\<close> is midnight UTC, which is 28 February, 19:00, in
  local time: the month filter, which reads local months, leaves the first outfit out,
  although \<^verbatim>\<open>toDateKey\<close> files it under 2025-03-01, the key of the grid's cell for
  1 March. The two outfits left make two groups of count 1, and the result is the second
  outfit with count 1, not the group of the first with count 2. In a host on UTC the same
  outfits give the group of the first outfit, with count 2.
\<close>

theorem getMostWornThisMonth_drops_first_of_month:
  "newDate (fixedZone (- 18000000)) 2025 2 1 = Time 1740805200000
   \<and> getFullYear (fixedZone (- 18000000)) (Time 1740805200000) = Some 2025
   \<and> getMonth (fixedZone (- 18000000)) (Time 1740805200000) = Some 2
   \<and> toDateKey (Time 1740805200000) = Inr ''2025-03-01''
   \<and> parseDate exampleParse (date marchOutfit1) = Time 1740787200000
   \<and> toDateKey (Time 1740787200000) = Inr ''2025-03-01''
   \<and> getFullYear (fixedZone (- 18000000)) (Time 1740787200000) = Some 2025
   \<and> getMonth (fixedZone (- 18000000)) (Time 1740787200000) = Some 1
   \<and> getDate (fixedZone (- 18000000)) (Time 1740787200000) = Some 28
   \<and> thisMonthOutfits (fixedZone (- 18000000)) exampleParse
        [marchOutfit1, marchOutfit2, marchOutfit3] (Time 1740805200000)
       = [marchOutfit2, marchOutfit3]
   \<and> getMostWornThisMonth (fixedZone (- 18000000)) exampleParse
        [marchOutfit1, marchOutfit2, marchOutfit3] (Time 1740805200000)
       = Inr (Some (''m2.png'', 1))
   \<and> newDate (fixedZone 0) 2025 2 1 = Time 1740787200000
   \<and> getMostWornThisMonth (fixedZone 0) exampleParse
        [marchOutfit1, marchOutfit2, marchOutfit3] (Time 1740787200000)
       = Inr (Some (''m1.png'', 2))"
proof -
  let ?z = "fixedZone (- 18000000)"
  have n0: "newDate (fixedZone 0) 2025 2 1 = Time 1740787200000"
    by (simp add: newDate_def MakeFullYear_def MakeDay_2025_03 MakeDate_def MakeTime_def
        TimeClip_def msPerDay_def)
  have t0: "thisMonthOutfits (fixedZone 0) exampleParse [marchOutfit1, marchOutfit2, marchOutfit3]
             (Time 1740787200000) = [marchOutfit1, marchOutfit2, marchOutfit3]"
    by (simp add: thisMonthOutfits_def march_examples)
  have b0: "best (foldl countStep [] [marchOutfit1, marchOutfit2, marchOutfit3])
             = Some \<lparr>count_n = 2, outfit = marchOutfit1\<rparr>"
    by (rule three_outfits_groups(2))
      (simp_all add: marchOutfit1_def marchOutfit2_def marchOutfit3_def)
  have p0: "previewImage marchOutfit1 = ''m1.png''" by (simp add: marchOutfit1_def)
  have r0: "getMostWornThisMonth (fixedZone 0) exampleParse
        [marchOutfit1, marchOutfit2, marchOutfit3] (Time 1740787200000)
       = Inr (Some (''m1.png'', 2))"
    unfolding getMostWornThisMonth_def t0 Let_def b0 by (simp add: p0)
  have n: "newDate ?z 2025 2 1 = Time 1740805200000"
    by (simp add: newDate_def MakeFullYear_def MakeDay_2025_03 MakeDate_def MakeTime_def
        TimeClip_def msPerDay_def)
  have c: "Day (LocalTime ?z 1740805200000) = MakeDay 2025 2 1"
    by (simp add: MakeDay_2025_03 Day_def msPerDay_def)
  have 1: "Day (LocalTime ?z 1740787200000) = MakeDay 2025 1 28"
    by (simp add: MakeDay_2025_03 Day_def msPerDay_def)
  have 2: "Day (LocalTime ?z 1741132800000) = MakeDay 2025 2 4"
    by (simp add: MakeDay_def DayFromYear_def monthStart_def DaysInYear_def Day_def msPerDay_def)
  have 3: "Day (LocalTime ?z 1741564800000) = MakeDay 2025 2 9"
    by (simp add: MakeDay_2025_03 Day_def msPerDay_def)
  note gc = getters_civil [OF _ _ _ _ c, simplified daysInMonth_2025, simplified]
  note g1 = getters_civil [OF _ _ _ _ 1, simplified daysInMonth_2025, simplified]
  note g2 = getters_civil [OF _ _ _ _ 2, simplified daysInMonth_2025, simplified]
  note g3 = getters_civil [OF _ _ _ _ 3, simplified daysInMonth_2025, simplified]
  have k: "toDateKey (Time 1740805200000) = Inr ''2025-03-01''"
    "toDateKey (Time 1740787200000) = Inr ''2025-03-01''"
    by (simp_all add: toDateKey_Time dateString_2025_03_01 Day_def msPerDay_def)
  have t: "thisMonthOutfits ?z exampleParse [marchOutfit1, marchOutfit2, marchOutfit3]
             (Time 1740805200000) = [marchOutfit2, marchOutfit3]"
    by (simp add: thisMonthOutfits_def march_examples gc g1 g2 g3)
  have s: "signature marchOutfit2 = ''a,b''" "signature marchOutfit3 = ''c''"
    by (simp_all add: signature_ab marchOutfit2_def marchOutfit3_def)
  have c1: "countStep [] marchOutfit2 = [(''a,b'', \<lparr>count_n = 1, outfit = marchOutfit2\<rparr>)]"
    by (simp add: countStep_def s plain_keys)
  have c2: "countStep [(''a,b'', \<lparr>count_n = 1, outfit = marchOutfit2\<rparr>)] marchOutfit3
      = [(''a,b'', \<lparr>count_n = 1, outfit = marchOutfit2\<rparr>),
         (''c'', \<lparr>count_n = 1, outfit = marchOutfit3\<rparr>)]"
    by (simp add: countStep_def s plain_keys)
  have f: "foldl countStep [] [marchOutfit2, marchOutfit3]
      = [(''a,b'', \<lparr>count_n = 1, outfit = marchOutfit2\<rparr>),
         (''c'', \<lparr>count_n = 1, outfit = marchOutfit3\<rparr>)]"
  proof -
    have "foldl countStep [] [marchOutfit2, marchOutfit3]
            = countStep (countStep [] marchOutfit2) marchOutfit3"
      by simp
    then show ?thesis by (simp only: c1 c2)
  qed
  have b: "best (foldl countStep [] [marchOutfit2, marchOutfit3])
             = Some \<lparr>count_n = 1, outfit = marchOutfit2\<rparr>"
    unfolding f by (simp add: best_def Object_values_def plain_keys)
  have p: "previewImage marchOutfit2 = ''m2.png''" by (simp add: marchOutfit2_def)
  have r: "getMostWornThisMonth ?z exampleParse [marchOutfit1, marchOutfit2, marchOutfit3]
             (Time 1740805200000) = Inr (Some (''m2.png'', 1))"
    unfolding getMostWornThisMonth_def t Let_def b by (simp add: p)
  from n gc g1 k t r n0 r0 show ?thesis by (simp add: march_examples)
qed




text \<open>
  C6. When every date parses, \<^verbatim>\<open>outfitMap\<close> is built, and under each key it holds the
  last outfit of the input whose date has that key, whole (nothing of an earlier outfit
  with the same key remains); a key no outfit has is absent.
\<close>

theorem outfitMap_last_wins:
  "\<forall>x\<in>set outfits. parseDate parse (date x) \<noteq> Invalid \<Longrightarrow>
   \<exists>m. outfitMap parse outfits = Inr m
     \<and> (\<forall>k. m k = (case filter (\<lambda>x. toDateKey (parseDate parse (date x)) = Inr k) outfits of
                     [] \<Rightarrow> None
                   | y # ys \<Rightarrow> Some (last (y # ys))))"
proof -
  assume "\<forall>x\<in>set outfits. parseDate parse (date x) \<noteq> Invalid"
  from outfitMapLoop_returns [OF this, of Map.empty]
  obtain m where m: "outfitMapLoop parse outfits Map.empty = Inr m" by blast
  from outfitMapLoop_last [OF m] m show ?thesis
    by (simp add: outfitMap_def keyOf_def)
qed

theorem outfitMap_last_wins_witness:
  "parseDate exampleParse (date morningOutfit) = Time 1749686400000
   \<and> parseDate exampleParse (date eveningOutfit) = Time 1749753000000
   \<and> toDateKey (parseDate exampleParse (date morningOutfit)) = Inr ''2025-06-12''
   \<and> toDateKey (parseDate exampleParse (date eveningOutfit)) = Inr ''2025-06-12''
   \<and> (\<exists>m. outfitMap exampleParse [morningOutfit, eveningOutfit] = Inr m
          \<and> m ''2025-06-12'' = Some eveningOutfit)"
proof -
  have v: "\<forall>x\<in>set [morningOutfit, eveningOutfit]. parseDate exampleParse (date x) \<noteq> Invalid"
    by (simp add: example_keys)
  have k: "toDateKey (parseDate exampleParse (date morningOutfit)) = Inr ''2025-06-12''"
    "toDateKey (parseDate exampleParse (date eveningOutfit)) = Inr ''2025-06-12''"
    using example_keys(1,2) by (simp_all add: keyOf_def)
  from outfitMap_last_wins [OF v] obtain m
    where m: "outfitMap exampleParse [morningOutfit, eveningOutfit] = Inr m"
      and l: "\<forall>k. m k = (case filter (\<lambda>x. toDateKey (parseDate exampleParse (date x)) = Inr k)
                                [morningOutfit, eveningOutfit] of
                     [] \<Rightarrow> None
                   | y # ys \<Rightarrow> Some (last (y # ys)))"
    by blast
  from l have "m ''2025-06-12'' = Some eveningOutfit" by (simp add: k)
  with m k example_keys(3,4) show ?thesis by blast
qed

text \<open>
  C7. Removing entries from the index never lengthens the streak, whatever the host's
  time zone rules: when \<^verbatim>\<open>getStreak\<close> returns \<open>n\<close> on an index, it returns some \<open>k \<le> n\<close>
  on every index whose keys are among the first one's, in particular on the index
  without today's (or any other) key.
\<close>

theorem getStreak_monotone:
  "getStreak z om now = Some (Inr n) \<Longrightarrow>
     (dom om' \<subseteq> dom om \<longrightarrow> (\<exists>k\<le>n. getStreak z om' now = Some (Inr k)))
     \<and> (\<exists>k\<le>n. getStreak z (om(key := None)) now = Some (Inr k))"
proof -
  assume r: "getStreak z om now = Some (Inr n)"
  have sub: "\<exists>k\<le>n. getStreak z m now = Some (Inr k)" if "dom m \<subseteq> dom om" for m
    using streakLoop_subset [OF that, of z "copyDate (Time now)" 0 n] r
    by (simp add: getStreak_def)
  have "dom (om(key := None)) \<subseteq> dom om" by auto
  with sub show ?thesis by blast
qed

theorem getStreak_monotone_witness:
  "getStreak newYork2025 marchIndex 1741649400000 = Some (Inr 3)
   \<and> dom (marchIndex(''2025-03-09'' := None)) \<subseteq> dom marchIndex
   \<and> (\<exists>k\<le>3. getStreak newYork2025 (marchIndex(''2025-03-09'' := None)) 1741649400000
                = Some (Inr k))"
proof -
  have s: "dom (marchIndex(''2025-03-09'' := None)) \<subseteq> dom marchIndex" by auto
  from getStreak_monotone [where z = newYork2025 and om = marchIndex and now = 1741649400000
      and n = 3 and om' = "marchIndex(''2025-03-09'' := None)" and key = "''2025-03-09''",
      OF getStreak_newYork_march] s
  show ?thesis by (simp add: getStreak_newYork_march)
qed

text \<open>
  C8 as stated fails on a record whose date does not parse: building \<^verbatim>\<open>outfitMap\<close>
  throws a RangeError that says nothing about the record, and \<^verbatim>\<open>getMostWornThisMonth\<close>
  answers as if the record were not there.
\<close>

theorem unparseable_date_no_InvalidRecord:
  "outfitMap exampleParse [morningOutfit, brokenOutfit] = Inl RangeError
   \<and> getMostWornThisMonth (fixedZone 0) exampleParse [morningOutfit, brokenOutfit]
        (Time 1749686400000)
       = Inr (Some (''p1.png'', 1))
   \<and> getMostWornThisMonth (fixedZone 0) exampleParse [brokenOutfit] (Time 1749686400000)
       = Inr None"
proof -
  have "outfitMap exampleParse [morningOutfit, brokenOutfit] = Inl RangeError"
    unfolding outfitMap_def
    by (rule outfitMapLoop_throws [of brokenOutfit]) (simp_all add: example_keys)
  moreover have "getMostWornThisMonth (fixedZone 0) exampleParse [brokenOutfit]
      (Time 1749686400000) = Inr None"
    by (simp add: getMostWornThisMonth_def thisMonthOutfits_def example_keys)
  ultimately show ?thesis by (simp add: mostWorn_morning)
qed

text \<open>
  C8, as the code has it. There is no InvalidRecord error. A record whose date does not
  parse makes the construction of \<^verbatim>\<open>outfitMap\<close> throw a RangeError, the same whichever
  record it is; \<^verbatim>\<open>getMostWornThisMonth\<close> leaves such records out and reports nothing.
\<close>

theorem unparseable_date_behaviour:
  "x \<in> set outfits \<Longrightarrow> parseDate parse (date x) = Invalid \<Longrightarrow>
     outfitMap parse outfits = Inl RangeError
     \<and> getMostWornThisMonth z parse outfits cm
         = getMostWornThisMonth z parse
             (filter (\<lambda>y. parseDate parse (date y) \<noteq> Invalid) outfits) cm"
proof -
  assume x: "x \<in> set outfits" "parseDate parse (date x) = Invalid"
  have "outfitMap parse outfits = Inl RangeError"
    unfolding outfitMap_def by (rule outfitMapLoop_throws [OF x])
  moreover have "getMostWornThisMonth z parse outfits cm
         = getMostWornThisMonth z parse
             (filter (\<lambda>y. parseDate parse (date y) \<noteq> Invalid) outfits) cm"
    unfolding getMostWornThisMonth_def
    by (subst thisMonthOutfits_skips_invalid) simp
  ultimately show ?thesis by simp
qed

theorem unparseable_date_behaviour_witness:
  "brokenOutfit \<in> set [morningOutfit, brokenOutfit]
   \<and> parseDate exampleParse (date brokenOutfit) = Invalid
   \<and> outfitMap exampleParse [morningOutfit, brokenOutfit] = Inl RangeError
   \<and> getMostWornThisMonth (fixedZone 0) exampleParse [morningOutfit, brokenOutfit]
        (Time 1749686400000)
       = getMostWornThisMonth (fixedZone 0) exampleParse [morningOutfit] (Time 1749686400000)"
proof -
  have m: "brokenOutfit \<in> set [morningOutfit, brokenOutfit]" by simp
  have i: "parseDate exampleParse (date brokenOutfit) = Invalid" by (simp add: example_keys)
  from unparseable_date_behaviour [OF m i, of "fixedZone 0" "Time 1749686400000"] m i
  show ?thesis by (simp add: example_keys)
qed

text \<open>
  C9 as stated fails: \<^verbatim>\<open>getStreak\<close> takes no argument and reads the clock, so two
  calls on the same outfits a day apart differ.
\<close>

theorem getStreak_reads_clock:
  "getStreak (fixedZone 0) juneIndex 1749729600000 = Some (Inr 3)
   \<and> getStreak (fixedZone 0) juneIndex 1749816000000 = Some (Inr 0)
   \<and> getStreak (fixedZone 0) juneIndex 1749729600000
       \<noteq> getStreak (fixedZone 0) juneIndex 1749816000000"
proof -
  have v: "validTime 1749816000000" by (simp add: validTime_def)
  have "dateString 1749816000000 = ''2025-06-13''"
    by (rule dateString_2025_06_13) (simp add: Day_def msPerDay_def)
  then have "getStreak (fixedZone 0) juneIndex 1749816000000 = Some (Inr 0)"
    using streakLoop_counts [OF v, of 0 juneIndex 0 0] v
    by (simp add: getStreak_valid [OF v] juneIndex_dom)
  then show ?thesis by (simp add: getStreak_juneIndex)
qed

text \<open>
  C9, as the code has it. Each aggregation is a function of the state it reads, ambient
  state included. \<^verbatim>\<open>getStreak\<close> reads the clock, the host's time zone rules and the
  outfit index, and depends on the index through its set of keys alone.
  \<^verbatim>\<open>getMostWornThisMonth\<close> reads the outfits, the host's time zone rules and date parser
  and the screen's \<^verbatim>\<open>currentMonth\<close>, and depends on \<^verbatim>\<open>currentMonth\<close> through its local
  year and month alone.
\<close>

theorem aggregations_depend_on:
  "(dom om = dom om' \<longrightarrow> getStreak z om now = getStreak z om' now)
   \<and> (getFullYear z cm = getFullYear z cm' \<and> getMonth z cm = getMonth z cm'
      \<longrightarrow> getMostWornThisMonth z parse outfits cm = getMostWornThisMonth z parse outfits cm')"
proof -
  have "getStreak z om now = getStreak z om' now" if "dom om = dom om'"
    using streakLoop_dom [OF that] by (simp add: getStreak_def)
  moreover
  have "getMostWornThisMonth z parse outfits cm = getMostWornThisMonth z parse outfits cm'"
    if "getFullYear z cm = getFullYear z cm'" "getMonth z cm = getMonth z cm'"
    using that by (simp add: getMostWornThisMonth_def thisMonthOutfits_def)
  ultimately show ?thesis by blast
qed

theorem aggregations_depend_on_witness:
  "dom marchIndex = dom (marchIndex(''2025-03-09'' \<mapsto> morningOutfit))
   \<and> getStreak newYork2025 marchIndex 1741649400000
       = getStreak newYork2025 (marchIndex(''2025-03-09'' \<mapsto> morningOutfit)) 1741649400000
   \<and> getFullYear (fixedZone 7200000) (Time 1749679200000)
       = getFullYear (fixedZone 7200000) (Time 1749722400000)
   \<and> getMonth (fixedZone 7200000) (Time 1749679200000)
       = getMonth (fixedZone 7200000) (Time 1749722400000)
   \<and> getMostWornThisMonth (fixedZone 7200000) exampleParse [exampleOutfit] (Time 1749679200000)
       = getMostWornThisMonth (fixedZone 7200000) exampleParse [exampleOutfit] (Time 1749722400000)"
proof -
  have d: "dom marchIndex = dom (marchIndex(''2025-03-09'' \<mapsto> morningOutfit))"
    by (auto simp: marchIndex_dom)
  have a: "Day (LocalTime (fixedZone 7200000) 1749679200000) = MakeDay 2025 5 12"
    by (simp add: MakeDay_2025_06 Day_def msPerDay_def)
  have b: "Day (LocalTime (fixedZone 7200000) 1749722400000) = MakeDay 2025 5 12"
    by (simp add: MakeDay_2025_06 Day_def msPerDay_def)
  have y: "getFullYear (fixedZone 7200000) (Time 1749679200000)
       = getFullYear (fixedZone 7200000) (Time 1749722400000)"
    using getters_civil(1) [OF _ _ _ _ a] getters_civil(1) [OF _ _ _ _ b]
    by (simp add: daysInMonth_2025)
  have m: "getMonth (fixedZone 7200000) (Time 1749679200000)
       = getMonth (fixedZone 7200000) (Time 1749722400000)"
    using getters_civil(2) [OF _ _ _ _ a] getters_civil(2) [OF _ _ _ _ b]
    by (simp add: daysInMonth_2025)
  from aggregations_depend_on [where om = marchIndex
      and om' = "marchIndex(''2025-03-09'' \<mapsto> morningOutfit)" and z = newYork2025
      and now = 1741649400000]
  have 1: "getStreak newYork2025 marchIndex 1741649400000
       = getStreak newYork2025 (marchIndex(''2025-03-09'' \<mapsto> morningOutfit)) 1741649400000"
    using d by blast
  from aggregations_depend_on [where z = "fixedZone 7200000"
      and cm = "Time 1749679200000" and cm' = "Time 1749722400000"
      and parse = exampleParse and outfits = "[exampleOutfit]"]
  have 2: "getMostWornThisMonth (fixedZone 7200000) exampleParse [exampleOutfit] (Time 1749679200000)
       = getMostWornThisMonth (fixedZone 7200000) exampleParse [exampleOutfit] (Time 1749722400000)"
    using y m by blast
  from d 1 y m 2 show ?thesis by blast
qed




end
